theory Spec2Isabelle
  imports Main "HOL-Library.Word"
begin

section \<open>The C library as mysmtpd.c uses it\<close>

text \<open>
  A C string is the list of its characters before the terminating NUL. \<open>size_t\<close> is the
  64-bit unsigned type: subtraction wraps and every value compares \<open>\<ge> 0\<close>.
\<close>

type_synonym size_t = "64 word"

definition NUL :: char where
  "NUL = CHR 0x00"

definition LF :: char where
  "LF = CHR 0x0A"

definition CRLF :: string where
  "CRLF = [CHR 0x0D, CHR 0x0A]"

definition MAX_LINE_LENGTH :: nat where
  "MAX_LINE_LENGTH = 1024"

definition isspace :: "char \<Rightarrow> bool" where
  \<comment> \<open>space, and the control characters 9 to 13 (tab, newline, vertical tab, form feed,
      carriage return)\<close>
  "isspace c = (c \<in> set [CHR '' '', CHR 0x09, CHR 0x0A, CHR 0x0B, CHR 0x0C, CHR 0x0D])"

definition tolower :: "char \<Rightarrow> char" where
  \<comment> \<open>an upper-case letter becomes its lower-case letter, any other character stays\<close>
  "tolower c =
     (case map_of (zip ''ABCDEFGHIJKLMNOPQRSTUVWXYZ'' ''abcdefghijklmnopqrstuvwxyz'') c of
        Some l \<Rightarrow> l
      | None \<Rightarrow> c)"

definition cstr :: "string \<Rightarrow> string" where
  \<comment> \<open>the C string that starts at the first cell of a character array\<close>
  "cstr buf = takeWhile (\<lambda>c. c \<noteq> NUL) buf"

definition strlen :: "string \<Rightarrow> size_t" where
  "strlen s = of_nat (length s)"

definition strcasecmp :: "string \<Rightarrow> string \<Rightarrow> bool" where
  \<comment> \<open>True when the C function returns 0\<close>
  "strcasecmp a b = (map tolower a = map tolower b)"

definition strncasecmp :: "string \<Rightarrow> string \<Rightarrow> nat \<Rightarrow> bool" where
  \<comment> \<open>True when the C function returns 0: the first n characters agree up to case, a
      string shorter than n ending where the other does\<close>
  "strncasecmp a b n = (map tolower (take n a) = map tolower (take n b))"

section \<open>Session data\<close>

datatype State =
    Init
  | Executed_Helo
  | Mail_transaction_open
  | Recipient_provided
  | Data_input
  | Data_input_done

datatype fault =
    OutOfBounds     \<comment> \<open>a read of recvbuf outside the array\<close>
  | NullPointer     \<comment> \<open>words[0] read when split found no word\<close>
  | NegativeLength  \<comment> \<open>a path array declared with a length below 1\<close>
  | OutOfFuel       \<comment> \<open>the loop was still running when the fuel ran out\<close>

text \<open>
  Modelled from the spec: \<open>user_list_t\<close> with \<open>user_list_create\<close>, \<open>user_list_add\<close> and
  \<open>user_list_destroy\<close> (mailuser.h) is an ordered sequence of addresses, insertion order
  kept, duplicates allowed. \<open>None\<close> is the NULL pointer.
\<close>

type_synonym user_list_t = "string list option"

definition user_list_create :: user_list_t where
  "user_list_create = Some []"

definition users :: "user_list_t \<Rightarrow> string list" where
  "users l = (case l of None \<Rightarrow> [] | Some us \<Rightarrow> us)"

definition user_list_add :: "user_list_t \<Rightarrow> string \<Rightarrow> user_list_t" where
  "user_list_add l u = Some (users l @ [u])"

text \<open>
  Modelled from the spec: the Line Reader \<open>nb_read_line\<close> (netbuffer.h) returns a line
  or reports the end of the stream. The net buffer is the script of what the client still
  sends: \<open>Line bs\<close> stores \<open>bs\<close> and a NUL in \<open>recvbuf\<close> and returns the number of bytes,
  \<open>Failed\<close> returns -1, and once the script is used up the connection is closed and
  every read returns 0.
\<close>

datatype read_event = Line string | Failed

record smtp_state =
  fd :: "string list"        \<comment> \<open>the replies handed to send_formatted for this socket\<close>
  fd_up :: bool              \<comment> \<open>whether a write on the socket succeeds\<close>
  nb :: "read_event list"
  recvbuf :: string
  words :: "string list"     \<comment> \<open>words[0] ... words[nwords - 1]\<close>
  state :: State
  nodename :: string         \<comment> \<open>my_uname.nodename\<close>
  reverse_path_buffer :: user_list_t
  forward_path_buffer :: user_list_t
  mail_data_buffer :: "string option"
  mail_store :: "(string \<times> string list) list"
    \<comment> \<open>what save_user_mail was given: the temporary file's contents and the recipients\<close>

definition nwords :: "smtp_state \<Rightarrow> int" where
  \<comment> \<open>split returns the number of words it stored\<close>
  "nwords ms = int (length (words ms))"

definition nb_read_line :: "smtp_state \<Rightarrow> int \<times> smtp_state" where
  "nb_read_line ms =
     (case nb ms of
        [] \<Rightarrow> (0, ms)
      | Failed # rest \<Rightarrow> (-1, ms\<lparr>nb := rest\<rparr>)
      | Line bs # rest \<Rightarrow> (int (length bs), ms\<lparr>nb := rest, recvbuf := bs @ [NUL]\<rparr>))"

text \<open>
  Modelled from the spec: \<open>send_formatted\<close> (util.h) writes one reply on the socket and
  returns the number of bytes written, or -1 when the write fails.
\<close>

definition send_formatted :: "smtp_state \<Rightarrow> string \<Rightarrow> int \<times> smtp_state" where
  "send_formatted ms msg =
     (if fd_up ms then int (length msg) else -1, ms\<lparr>fd := fd ms @ [msg]\<rparr>)"

text \<open>
  Modelled from the spec: \<open>split\<close> (util.h) cuts the line at whitespace into its words,
  in order; a line of whitespace only has no word.
\<close>

fun split_acc :: "string \<Rightarrow> string \<Rightarrow> string list" where
  "split_acc w [] = (if w = [] then [] else [w])"
| "split_acc w (c # cs) =
     (if isspace c then (if w = [] then split_acc [] cs else w # split_acc [] cs)
      else split_acc (w @ [c]) cs)"

definition split :: "string \<Rightarrow> string list" where
  "split s = split_acc [] s"

section \<open>Reading recvbuf\<close>

definition recvbuf_at :: "string \<Rightarrow> size_t \<Rightarrow> fault + char" where
  \<comment> \<open>\<open>recvbuf[i]\<close>: the array has MAX_LINE_LENGTH + 1 cells, of which the model holds
      those written by the last read; the handlers read no cell behind them\<close>
  "recvbuf_at buf i =
     (if unat i < MAX_LINE_LENGTH + 1 \<and> unat i < length buf then Inr (buf ! unat i)
      else Inl OutOfBounds)"

function strip_trailing :: "string \<Rightarrow> size_t \<Rightarrow> fault + (string \<times> size_t)" where
  \<comment> \<open>\<open>while (isspace(recvbuf[len - 1])) recvbuf[--len] = 0;\<close>\<close>
  "strip_trailing buf len =
     (case recvbuf_at buf (len - 1) of
        Inl e \<Rightarrow> Inl e
      | Inr c \<Rightarrow>
          if isspace c then strip_trailing (buf[unat (len - 1) := NUL]) (len - 1)
          else Inr (buf, len))"
  by pat_completeness auto
termination
proof (relation "measure (\<lambda>(buf, len). unat len)")
  show "wf (measure (\<lambda>(buf, len). unat len))" by simp
next
  fix buf :: string and len :: size_t and c :: char
  assume "recvbuf_at buf (len - 1) = Inr c"
  then have "unat (len - 1) < MAX_LINE_LENGTH + 1"
    by (simp add: recvbuf_at_def split: if_splits)
  then have "len \<noteq> 0"
    by (auto simp: MAX_LINE_LENGTH_def unsigned_minus_1_eq_mask mask_eq_exp_minus_1)
  then have "unat (len - 1) < unat len"
    by (simp add: unat_minus_one unat_gt_0)
  then show "((buf[unat (len - 1) := NUL], len - 1), (buf, len)) \<in> measure (\<lambda>(buf, len). unat len)"
    by simp
qed

declare strip_trailing.simps [simp del]

section \<open>Replies and buffers\<close>

definition clear_buffers :: "smtp_state \<Rightarrow> smtp_state" where
  "clear_buffers ms =
     (let ms1 = (if reverse_path_buffer ms \<noteq> None then ms\<lparr>reverse_path_buffer := None\<rparr> else ms);
          ms2 = (if forward_path_buffer ms1 \<noteq> None then ms1\<lparr>forward_path_buffer := None\<rparr> else ms1)
      in if mail_data_buffer ms2 \<noteq> None then ms2\<lparr>mail_data_buffer := None\<rparr> else ms2)"

definition syntax_error :: "smtp_state \<Rightarrow> int \<times> smtp_state" where
  "syntax_error ms =
     (let (r, ms') = send_formatted ms (''501 Syntax error in parameters or arguments'' @ CRLF)
      in (if r \<le> 0 then - 1 else 1, ms'))"

definition checkstate :: "smtp_state \<Rightarrow> State \<Rightarrow> int \<times> smtp_state" where
  "checkstate ms s =
     (if state ms \<noteq> s then
        (let (r, ms') = send_formatted ms (''503 Bad sequence of commands'' @ CRLF)
         in (if r \<le> 0 then - 1 else 1, ms'))
      else (0, ms))"

definition wrong_sequence :: "smtp_state \<Rightarrow> smtp_state" where
  \<comment> \<open>\<open>send_formatted(ms->fd, "503 Wrong sequence of commands\r\n")\<close>, result unused\<close>
  "wrong_sequence ms = snd (send_formatted ms (''503 Wrong sequence of commands'' @ CRLF))"

section \<open>Command handlers\<close>

text \<open>
  Every handler returns -1 if the server should exit, 0 if the command was successful and
  1 if it was not. A handler that can run into undefined behaviour returns a fault
  instead.
\<close>

definition do_quit :: "smtp_state \<Rightarrow> int \<times> smtp_state" where
  "do_quit ms =
     (- 1, snd (send_formatted ms (''221 Service closing transmission channel.'' @ CRLF)))"

definition do_helo :: "smtp_state \<Rightarrow> int \<times> smtp_state" where
  "do_helo ms =
     (if nwords ms \<noteq> 2 then
        (1, snd (send_formatted ms (''501 Syntax error in arguments'' @ CRLF)))
      else if state ms \<noteq> Init then (1, wrong_sequence ms)
      else
        let ms1 = ms\<lparr>state := Executed_Helo\<rparr>;
            ms2 = snd (send_formatted ms1 (''250 '' @ nodename ms1 @ CRLF))
        in (0, ms2\<lparr>reverse_path_buffer := None, forward_path_buffer := None,
                   mail_data_buffer := None\<rparr>))"

definition do_rset :: "smtp_state \<Rightarrow> int \<times> smtp_state" where
  "do_rset ms =
     (if nwords ms \<noteq> 1 then
        (1, snd (send_formatted ms (''501 Syntax error in arguments'' @ CRLF)))
      else
        let ms1 = (if state ms \<noteq> Init then (clear_buffers ms)\<lparr>state := Executed_Helo\<rparr> else ms)
        in (1, snd (send_formatted ms1 (''250 State reset'' @ CRLF))))"

definition do_mail :: "smtp_state \<Rightarrow> fault + (int \<times> smtp_state)" where
  \<comment> \<open>\<open>||\<close> evaluates its right operand, the last character of words[1], only when the
      prefix matched; \<open>reverse_path\<close> is an array of \<open>strlength + 1\<close> characters\<close>
  "do_mail ms =
     (if nwords ms \<noteq> 2 then Inr (1, snd (syntax_error ms))
      else if \<not> strncasecmp (words ms ! 1) ''FROM:<'' 6 then Inr (1, snd (syntax_error ms))
      else if last (words ms ! 1) \<noteq> CHR ''>'' then Inr (1, snd (syntax_error ms))
      else if \<not> (state ms = Executed_Helo \<or> state ms = Data_input_done) then
        Inr (1, wrong_sequence ms)
      else
        let strlength = int (length (words ms ! 1)) - 7 in
        if strlength < 0 then Inl NegativeLength
        else
          let reverse_path = take (nat strlength) (drop 6 (words ms ! 1));
              ms1 = clear_buffers ms;
              ms2 = (if reverse_path_buffer ms1 = None
                     then ms1\<lparr>reverse_path_buffer := user_list_create\<rparr> else ms1);
              ms3 = ms2\<lparr>reverse_path_buffer := user_list_add (reverse_path_buffer ms2) reverse_path\<rparr>;
              ms4 = snd (send_formatted ms3 (''250 ok (mail)'' @ CRLF))
          in Inr (0, ms4\<lparr>state := Mail_transaction_open\<rparr>))"

definition do_rcpt :: "(string \<Rightarrow> bool) \<Rightarrow> smtp_state \<Rightarrow> fault + (int \<times> smtp_state)" where
  \<comment> \<open>\<open>is_valid_user\<close> (mailuser.h) is the parameter of the model\<close>
  "do_rcpt is_valid_user ms =
     (if nwords ms \<noteq> 2 then Inr (1, snd (syntax_error ms))
      else if \<not> strncasecmp (words ms ! 1) ''TO:<'' 4 then Inr (1, snd (syntax_error ms))
      else if last (words ms ! 1) \<noteq> CHR ''>'' then Inr (1, snd (syntax_error ms))
      else if \<not> (state ms = Mail_transaction_open \<or> state ms = Recipient_provided) then
        Inr (1, wrong_sequence ms)
      else
        let strlength = int (length (words ms ! 1)) - 5 in
        if strlength < 0 then Inl NegativeLength
        else
          let forward_path = take (nat strlength) (drop 4 (words ms ! 1)) in
          if is_valid_user forward_path then
            let ms1 = (if forward_path_buffer ms = None
                       then ms\<lparr>forward_path_buffer := user_list_create\<rparr> else ms);
                ms2 = ms1\<lparr>forward_path_buffer := user_list_add (forward_path_buffer ms1) forward_path\<rparr>;
                ms3 = ms2\<lparr>state := Recipient_provided\<rparr>
            in Inr (0, snd (send_formatted ms3 (''250 OK (rcpt)'' @ CRLF)))
          else
            Inr (1, snd (send_formatted ms (''550 No such user - '' @ forward_path @ CRLF))))"

definition do_noop :: "smtp_state \<Rightarrow> int \<times> smtp_state" where
  "do_noop ms = (0, snd (send_formatted ms (''250 OK (noop)'' @ CRLF)))"

definition do_vrfy :: "(string \<Rightarrow> bool) \<Rightarrow> smtp_state \<Rightarrow> int \<times> smtp_state" where
  "do_vrfy is_valid_user ms =
     (if nwords ms \<noteq> 2 then (1, snd (syntax_error ms))
      else if is_valid_user (words ms ! 1) then
        (0, snd (send_formatted ms (''250 <'' @ words ms ! 1 @ ''>'' @ CRLF)))
      else
        (0, snd (send_formatted ms (''550 No such user - '' @ words ms ! 1 @ CRLF))))"

section \<open>The DATA handler\<close>

definition save_user_mail :: "smtp_state \<Rightarrow> smtp_state" where
  \<comment> \<open>Modelled from the spec: the temporary file receives the mail data buffer (nothing
      when it is NULL) and \<open>save_user_mail\<close> (mailuser.h) hands it to the Mail Store with
      the recipients\<close>
  "save_user_mail ms =
     (let file = (case mail_data_buffer ms of None \<Rightarrow> [] | Some d \<Rightarrow> d)
      in ms\<lparr>mail_store := mail_store ms @ [(file, users (forward_path_buffer ms))]\<rparr>)"

definition append_line :: "smtp_state \<Rightarrow> string \<Rightarrow> fault + smtp_state" where
  \<comment> \<open>lines 395 to 425: the first line is copied as it is, a later line loses a leading
      dot, and CRLF follows\<close>
  "append_line ms buf =
     (case mail_data_buffer ms of
        None \<Rightarrow> Inr (ms\<lparr>mail_data_buffer := Some (cstr buf @ CRLF)\<rparr>)
      | Some d \<Rightarrow>
          (case recvbuf_at buf 0 of
             Inl e \<Rightarrow> Inl e
           | Inr c \<Rightarrow>
               if c = CHR ''.'' then Inr (ms\<lparr>mail_data_buffer := Some (d @ cstr (drop 1 buf) @ CRLF)\<rparr>)
               else Inr (ms\<lparr>mail_data_buffer := Some (d @ cstr buf @ CRLF)\<rparr>)))"

fun do_data_loop :: "nat \<Rightarrow> smtp_state \<Rightarrow> fault + (int \<times> smtp_state)" where
  "do_data_loop 0 ms = Inl OutOfFuel"
| "do_data_loop (Suc fuel) ms =
     (let (r, ms1) = nb_read_line ms;
          len = (word_of_int r :: size_t)
      in
        if \<not> 0 \<le> len then Inr (1, snd (send_formatted ms1 (''501'' @ [LF])))
        else if len = 0 then do_data_loop fuel ms1
        else
          (case strip_trailing (recvbuf ms1) len of
             Inl e \<Rightarrow> Inl e
           | Inr (buf, len') \<Rightarrow>
               let ms2 = ms1\<lparr>recvbuf := buf\<rparr> in
               if cstr buf = ''.'' then
                 let ms3 = save_user_mail ms2;
                     ms4 = clear_buffers ms3;
                     ms5 = ms4\<lparr>state := Data_input_done\<rparr>
                 in Inr (0, snd (send_formatted ms5 (''250 OK data done'' @ CRLF)))
               else
                 (case append_line ms2 buf of
                    Inl e \<Rightarrow> Inl e
                  | Inr ms3 \<Rightarrow> do_data_loop fuel ms3)))"

definition do_data :: "nat \<Rightarrow> smtp_state \<Rightarrow> fault + (int \<times> smtp_state)" where
  "do_data fuel ms =
     (if nwords ms \<noteq> 1 then Inr (1, snd (syntax_error ms))
      else if state ms \<noteq> Recipient_provided then Inr (1, wrong_sequence ms)
      else
        let ms1 = ms\<lparr>state := Data_input\<rparr>;
            ms2 = snd (send_formatted ms1 (''354 Start mail input; end with <CRLF>.<CRLF>'' @ CRLF))
        in do_data_loop fuel ms2)"

section \<open>The session loop\<close>

definition unless_exit :: "int \<times> smtp_state \<Rightarrow> bool \<times> smtp_state" where
  \<comment> \<open>\<open>if (do_x(ms) == -1) break;\<close>: the flag says that the loop goes on\<close>
  "unless_exit res = (fst res \<noteq> - 1, snd res)"

definition unless_failed :: "int \<times> smtp_state \<Rightarrow> bool \<times> smtp_state" where
  \<comment> \<open>\<open>if (send_formatted(...) <= 0) break;\<close>\<close>
  "unless_failed res = (\<not> fst res \<le> 0, snd res)"

definition dispatch ::
  "(string \<Rightarrow> bool) \<Rightarrow> nat \<Rightarrow> smtp_state \<Rightarrow> fault + (bool \<times> smtp_state)" where
  "dispatch is_valid_user fuel ms =
     (case words ms of
        [] \<Rightarrow> Inl NullPointer
      | command # args \<Rightarrow>
          if strcasecmp command ''QUIT'' then Inr (unless_exit (do_quit ms))
          else if strcasecmp command ''HELO'' \<or> strcasecmp command ''EHLO'' then
            Inr (unless_exit (do_helo ms))
          else if strcasecmp command ''MAIL'' then map_sum id unless_exit (do_mail ms)
          else if strcasecmp command ''RCPT'' then
            map_sum id unless_exit (do_rcpt is_valid_user ms)
          else if strcasecmp command ''DATA'' then map_sum id unless_exit (do_data fuel ms)
          else if strcasecmp command ''RSET'' then Inr (unless_exit (do_rset ms))
          else if strcasecmp command ''NOOP'' then Inr (unless_exit (do_noop ms))
          else if strcasecmp command ''VRFY'' then
            Inr (unless_exit (do_vrfy is_valid_user ms))
          else if strcasecmp command ''EXPN'' \<or> strcasecmp command ''HELP'' then
            Inr (unless_failed (send_formatted ms (''502 Command not implemented'' @ CRLF)))
          else
            Inr (unless_failed
                   (send_formatted ms (''500 Syntax error, command unrecognized'' @ CRLF))))"

definition loop_body ::
  "(string \<Rightarrow> bool) \<Rightarrow> nat \<Rightarrow> smtp_state \<Rightarrow> size_t \<Rightarrow> fault + (bool \<times> smtp_state)" where
  \<comment> \<open>lines 485 to 562, with \<open>len\<close> what the read returned\<close>
  "loop_body is_valid_user fuel ms len =
     (case recvbuf_at (recvbuf ms) (len - 1) of
        Inl e \<Rightarrow> Inl e
      | Inr c \<Rightarrow>
          if c \<noteq> LF then
            Inr (False, snd (send_formatted ms (''500 Syntax error, command unrecognized'' @ CRLF)))
          else if strlen (cstr (recvbuf ms)) < len then
            Inr (False, snd (send_formatted ms (''500 Syntax error, command unrecognized'' @ CRLF)))
          else
            (case strip_trailing (recvbuf ms) len of
               Inl e \<Rightarrow> Inl e
             | Inr (buf, len') \<Rightarrow>
                 dispatch is_valid_user fuel (ms\<lparr>recvbuf := buf, words := split (cstr buf)\<rparr>)))"

definition read_command ::
  "(string \<Rightarrow> bool) \<Rightarrow> nat \<Rightarrow> smtp_state \<Rightarrow> fault + (bool \<times> smtp_state)" where
  \<comment> \<open>one turn of the \<open>while\<close> loop of handle_client: the read, the loop condition and
      the body\<close>
  "read_command is_valid_user fuel ms =
     (let (r, ms1) = nb_read_line ms;
          len = (word_of_int r :: size_t)
      in if \<not> 0 \<le> len then Inr (False, ms1) else loop_body is_valid_user fuel ms1 len)"

fun handle_client_loop ::
  "(string \<Rightarrow> bool) \<Rightarrow> nat \<Rightarrow> smtp_state \<Rightarrow> fault + smtp_state" where
  "handle_client_loop is_valid_user 0 ms = Inl OutOfFuel"
| "handle_client_loop is_valid_user (Suc fuel) ms =
     (case read_command is_valid_user fuel ms of
        Inl e \<Rightarrow> Inl e
      | Inr (continue, ms') \<Rightarrow>
          if continue then handle_client_loop is_valid_user fuel ms' else Inr ms')"

definition handle_client ::
  "(string \<Rightarrow> bool) \<Rightarrow> nat \<Rightarrow> smtp_state \<Rightarrow> fault + smtp_state" where
  \<comment> \<open>the argument holds the socket, the client's script and the host name; its other
      fields are the memory of \<open>mstate\<close>, which handle_client does not initialise\<close>
  "handle_client is_valid_user fuel ms0 =
     (let ms = ms0\<lparr>state := Init\<rparr>;
          (r, ms1) = send_formatted ms (''220 '' @ nodename ms @ '' Service ready'' @ CRLF)
      in if r \<le> 0 then Inr ms1 else handle_client_loop is_valid_user fuel ms1)"

section \<open>Example sessions\<close>

definition session0 :: smtp_state where
  \<comment> \<open>a connection whose client has sent nothing yet\<close>
  "session0 =
     \<lparr>fd = [], fd_up = True, nb = [], recvbuf = [], words = [], state = Init,
      nodename = ''mx'', reverse_path_buffer = None, forward_path_buffer = None,
      mail_data_buffer = None, mail_store = []\<rparr>"

definition rcpt_session :: smtp_state where
  \<comment> \<open>the session when DATA arrives after MAIL from alice and RCPT to bob\<close>
  "rcpt_session =
     session0\<lparr>words := [''DATA''], state := Recipient_provided,
       reverse_path_buffer := Some [''alice''], forward_path_buffer := Some [''bob'']\<rparr>"

definition example_script :: "read_event list" where
  "example_script =
     [Line (''HELO client'' @ CRLF), Line (''MAIL FROM:<alice>'' @ CRLF),
      Line (''RCPT TO:<bob>'' @ CRLF), Line (''QUIT'' @ CRLF)]"

definition example_end :: smtp_state where
  \<comment> \<open>the session when handle_client returns from \<open>example_script\<close>\<close>
  "example_end =
     \<lparr>fd = [''220 mx Service ready'' @ CRLF, ''250 mx'' @ CRLF, ''250 ok (mail)'' @ CRLF,
            ''250 OK (rcpt)'' @ CRLF, ''221 Service closing transmission channel.'' @ CRLF],
      fd_up = True, nb = [], recvbuf = ''QUIT'' @ [NUL, NUL, NUL], words = [''QUIT''],
      state = Recipient_provided, nodename = ''mx'', reverse_path_buffer = Some [''alice''],
      forward_path_buffer = Some [''bob''], mail_data_buffer = None, mail_store = []\<rparr>"

definition data_end :: smtp_state where
  \<comment> \<open>\<open>rcpt_session\<close> after DATA with the body line \<open>Hi\<close>\<close>
  "data_end =
     \<lparr>fd = [''354 Start mail input; end with <CRLF>.<CRLF>'' @ CRLF, ''250 OK data done'' @ CRLF],
      fd_up = True, nb = [], recvbuf = ''.'' @ [NUL, NUL, NUL], words = [''DATA''],
      state = Data_input_done, nodename = ''mx'', reverse_path_buffer = None,
      forward_path_buffer = None, mail_data_buffer = None,
      mail_store = [(''Hi'' @ CRLF, [''bob''])]\<rparr>"

definition mail_end :: smtp_state where
  \<comment> \<open>\<open>rcpt_session\<close>, its DATA done, after \<open>MAIL From:<carol@example.org>\<close>\<close>
  "mail_end =
     rcpt_session\<lparr>state := Mail_transaction_open,
       words := [''MAIL'', ''From:<carol@example.org>''],
       reverse_path_buffer := Some [''carol@example.org''],
       forward_path_buffer := None, fd := [''250 ok (mail)'' @ CRLF]\<rparr>"

section \<open>Notions used in the statements\<close>

definition replied :: "smtp_state \<Rightarrow> string \<Rightarrow> smtp_state" where
  \<comment> \<open>the session after one more reply, nothing else changed\<close>
  "replied ms msg = ms\<lparr>fd := fd ms @ [msg]\<rparr>"

definition syntax_reply :: string where
  "syntax_reply = ''501 Syntax error in parameters or arguments'' @ CRLF"

definition arguments_reply :: string where
  "arguments_reply = ''501 Syntax error in arguments'' @ CRLF"

definition sequence_reply :: string where
  "sequence_reply = ''503 Wrong sequence of commands'' @ CRLF"

definition bad_sequence_reply :: string where
  "bad_sequence_reply = ''503 Bad sequence of commands'' @ CRLF"

definition mail_syntax_ok :: "smtp_state \<Rightarrow> bool" where
  \<comment> \<open>the argument check of do_mail, lines 205 and 211, passes\<close>
  "mail_syntax_ok ms =
     (nwords ms = 2 \<and> strncasecmp (words ms ! 1) ''FROM:<'' 6 \<and> last (words ms ! 1) = CHR ''>'')"

definition rcpt_syntax_ok :: "smtp_state \<Rightarrow> bool" where
  \<comment> \<open>the argument check of do_rcpt, lines 268 and 274, passes\<close>
  "rcpt_syntax_ok ms =
     (nwords ms = 2 \<and> strncasecmp (words ms ! 1) ''TO:<'' 4 \<and> last (words ms ! 1) = CHR ''>'')"

definition spec_well_formed :: "string \<Rightarrow> string \<Rightarrow> bool" where
  \<comment> \<open>the specification's words: the argument word begins, up to case, with the literal
      and ends with \<open>>\<close>, the two apart\<close>
  "spec_well_formed literal w =
     (length literal < length w \<and> map tolower (take (length literal) w) = map tolower literal
      \<and> last w = CHR ''>'')"

definition spec_enclosed_path :: "string \<Rightarrow> string \<Rightarrow> string" where
  \<comment> \<open>the specification's words: whatever lies strictly between the literal and \<open>>\<close>\<close>
  "spec_enclosed_path literal w = butlast (drop (length literal) w)"

definition all_clear :: "smtp_state \<Rightarrow> bool" where
  "all_clear ms =
     (reverse_path_buffer ms = None \<and> forward_path_buffer ms = None \<and> mail_data_buffer ms = None)"

section \<open>The states a session passes through\<close>

definition session_inv :: "smtp_state \<Rightarrow> smtp_state \<Rightarrow> bool" where
  \<comment> \<open>what holds of the buffers in each state, \<open>ms0\<close> being the memory handle_client
      started with\<close>
  "session_inv ms0 ms =
     ((state ms = Init \<longrightarrow>
         reverse_path_buffer ms = reverse_path_buffer ms0
         \<and> forward_path_buffer ms = forward_path_buffer ms0
         \<and> mail_data_buffer ms = mail_data_buffer ms0)
      \<and> (state ms = Executed_Helo \<or> state ms = Data_input_done \<longrightarrow>
         users (forward_path_buffer ms) = [])
      \<and> (state ms = Mail_transaction_open \<or> state ms = Recipient_provided
           \<or> state ms = Data_input \<longrightarrow>
         users (reverse_path_buffer ms) \<noteq> []))"

definition greeted :: "smtp_state \<Rightarrow> smtp_state" where
  \<comment> \<open>the session when handle_client enters its loop\<close>
  "greeted ms0 =
     snd (send_formatted (ms0\<lparr>state := Init\<rparr>) (''220 '' @ nodename ms0 @ '' Service ready'' @ CRLF))"

text \<open>
  The states of a session with user directory \<open>is_valid_user\<close> that starts from the memory
  \<open>ms0\<close>: the state in which the loop of handle_client is entered, and the state after
  every turn of the loop that returns, the last one included.
\<close>

inductive reachable :: "(string \<Rightarrow> bool) \<Rightarrow> smtp_state \<Rightarrow> smtp_state \<Rightarrow> bool"
  for is_valid_user :: "string \<Rightarrow> bool" and ms0 :: smtp_state where
    start: "reachable is_valid_user ms0 (greeted ms0)"
  | turn: "reachable is_valid_user ms0 ms \<Longrightarrow>
           read_command is_valid_user fuel ms = Inr (continue, ms') \<Longrightarrow>
           reachable is_valid_user ms0 ms'"

section \<open>Evaluation rules\<close>

lemmas libc_defs =
  NUL_def LF_def CRLF_def MAX_LINE_LENGTH_def isspace_def tolower_def cstr_def strlen_def
  strcasecmp_def strncasecmp_def

lemmas size_t_simps = unsigned_minus_1_eq_mask mask_eq_exp_minus_1

lemmas io_defs =
  nb_read_line_def send_formatted_def recvbuf_at_def split_def nwords_def users_def
  user_list_create_def user_list_add_def

lemmas reply_defs = syntax_error_def checkstate_def wrong_sequence_def

lemmas data_defs = save_user_mail_def append_line_def clear_buffers_def do_data_def

lemmas loop_defs =
  unless_exit_def unless_failed_def dispatch_def loop_body_def read_command_def
  handle_client_def

lemmas example_defs = session0_def rcpt_session_def

section \<open>The DATA accumulator\<close>

lemma do_data_loop_closed: "nb ms = [] \<Longrightarrow> do_data_loop fuel ms = Inl OutOfFuel"
  by (induction fuel) (simp_all add: nb_read_line_def)

lemma do_data_closed:
  assumes "nwords ms = 1" and "state ms = Recipient_provided" and "nb ms = []"
  shows "do_data fuel ms = Inl OutOfFuel"
  using assms by (simp add: do_data_def send_formatted_def do_data_loop_closed)

lemma do_data_loop_returns_0:
  "do_data_loop fuel ms = Inr (r, ms') \<Longrightarrow> r = 0 \<and> state ms' = Data_input_done"
proof (induction fuel arbitrary: ms)
  case 0
  then show ?case by simp
next
  case (Suc fuel)
  obtain n ms1 where rd: "nb_read_line ms = (n, ms1)"
    by (cases "nb_read_line ms")
  show ?case
  proof (cases "(word_of_int n :: size_t) = 0")
    case True
    with Suc rd show ?thesis by simp
  next
    case False
    with Suc.prems rd obtain buf len' where
      st: "strip_trailing (recvbuf ms1) (word_of_int n) = Inr (buf, len')"
      by (auto split: sum.splits)
    show ?thesis
    proof (cases "cstr buf = ''.''")
      case True
      with Suc.prems rd False st show ?thesis
        by (auto simp: send_formatted_def Let_def)
    next
      case dot: False
      with Suc.prems rd False st obtain ms3 where
        "do_data_loop fuel ms3 = Inr (r, ms')"
        by (auto split: sum.splits)
      with Suc.IH show ?thesis by blast
    qed
  qed
qed

lemma strip_trailing_whitespace_only:
  assumes "\<forall>c \<in> set bs. isspace c" and "length bs \<le> MAX_LINE_LENGTH"
  shows "strip_trailing (bs @ rest) (of_nat (length bs)) = Inl OutOfBounds"
  using assms
proof (induction bs arbitrary: rest rule: rev_induct)
  case Nil
  show ?case
    by (subst strip_trailing.simps) (simp add: recvbuf_at_def MAX_LINE_LENGTH_def size_t_simps)
next
  case (snoc x xs)
  have len: "length xs < MAX_LINE_LENGTH" using snoc.prems(2) by simp
  then have un: "unat (of_nat (length xs) :: size_t) = length xs"
    by (simp add: unat_of_nat MAX_LINE_LENGTH_def)
  have sp: "isspace x" using snoc.prems(1) by simp
  have at: "recvbuf_at ((xs @ [x]) @ rest) (of_nat (length (xs @ [x])) - 1) = Inr x"
    using len by (simp add: recvbuf_at_def un)
  have upd: "((xs @ [x]) @ rest)[unat (of_nat (length (xs @ [x])) - 1 :: size_t) := NUL]
      = xs @ (NUL # rest)"
    by (simp add: un)
  have ih: "strip_trailing (xs @ (NUL # rest)) (of_nat (length xs)) = Inl OutOfBounds"
    using snoc.prems len by (intro snoc.IH) simp_all
  show ?case
    by (subst strip_trailing.simps) (simp only: at sum.case sp if_True upd, simp add: ih)
qed

lemma cstr_terminated: "NUL \<notin> set xs \<Longrightarrow> cstr (xs @ [NUL]) = xs"
proof -
  assume "NUL \<notin> set xs"
  then have "takeWhile (\<lambda>c. c \<noteq> NUL) (xs @ [NUL]) = xs @ takeWhile (\<lambda>c. c \<noteq> NUL) [NUL]"
    by (intro takeWhile_append2) auto
  then show ?thesis by (simp add: cstr_def)
qed

lemma whitespace_data_line_out_of_bounds:
  assumes "\<forall>c \<in> set bs. isspace c" and "bs \<noteq> []" and "length bs \<le> MAX_LINE_LENGTH"
  shows "do_data_loop (Suc fuel) (ms\<lparr>nb := Line bs # rest\<rparr>) = Inl OutOfBounds"
proof -
  have rd: "nb_read_line (ms\<lparr>nb := Line bs # rest\<rparr>)
      = (int (length bs), ms\<lparr>nb := rest, recvbuf := bs @ [NUL]\<rparr>)"
    by (simp add: nb_read_line_def)
  have w: "(word_of_int (int (length bs)) :: size_t) = of_nat (length bs)"
    by (simp only: of_int_of_nat_eq)
  have "unat (of_nat (length bs) :: size_t) = length bs"
    using assms(3) by (simp add: unat_of_nat MAX_LINE_LENGTH_def)
  with assms(2) have nz: "(of_nat (length bs) :: size_t) \<noteq> 0"
    by (metis length_0_conv unat_0)
  have sel: "recvbuf (ms\<lparr>nb := rest, recvbuf := bs @ [NUL]\<rparr>) = bs @ [NUL]" by simp
  have strip: "strip_trailing (bs @ [NUL]) (of_nat (length bs)) = Inl OutOfBounds"
    using assms(1,3) by (rule strip_trailing_whitespace_only)
  show ?thesis
    unfolding do_data_loop.simps rd
    by (simp only: prod.case Let_def w word_zero_le not_True_eq_False if_False nz sel strip
        sum.case)
qed

text \<open>
  C1 (the code departs from the claim). The claim asks that a body line that begins with a
  dot loses exactly one dot wherever it stands, the first body line included. do_data
  removes the dot only in the branch taken when the mail data buffer already exists; the
  branch for the first body line copies the line as it is. With the DATA lines
  \<open>.World\<close> and \<open>.\<close> the body handed to the Mail Store is \<open>.World\<close> CRLF, the dot
  kept. The claim's own example, where the dotted line comes second, gives
  \<open>Hello\<close> CRLF \<open>World\<close> CRLF and state Data_input_done.
\<close>

theorem do_data_first_line_keeps_dot:
  "map_sum id (\<lambda>(r, ms). (r, state ms, mail_store ms))
     (do_data (Suc (Suc 0))
        (rcpt_session\<lparr>nb := [Line (''.World'' @ CRLF), Line (''.'' @ CRLF)]\<rparr>))
   = Inr (0, Data_input_done, [(''.World'' @ CRLF, [''bob''])])
   \<and>
   map_sum id (\<lambda>(r, ms). (r, state ms, mail_store ms))
     (do_data (Suc (Suc (Suc 0)))
        (rcpt_session\<lparr>nb := [Line (''Hello'' @ CRLF), Line (''.World'' @ CRLF), Line (''.'' @ CRLF)]\<rparr>))
   = Inr (0, Data_input_done, [(''Hello'' @ CRLF @ ''World'' @ CRLF, [''bob''])])"
  by (simp add: strip_trailing.simps libc_defs size_t_simps io_defs reply_defs data_defs
      example_defs Let_def)

text \<open>
  C10 (the code departs from the claim). The claim asks that the loop that strips the end
  of a DATA line reads the line only at indices from 0 on. The loop has no lower bound: a
  line of whitespace only, such as the empty line CRLF that separates the header of a
  message from its text, is stripped to length 0 and then \<open>recvbuf[len - 1]\<close> is read with
  \<open>len = 0\<close>, outside the array. Lemma \<open>whitespace_data_line_out_of_bounds\<close> shows the
  same for every line of whitespace only.
\<close>

theorem do_data_blank_line_out_of_bounds:
  "strip_trailing (CRLF @ [NUL]) 2 = Inl OutOfBounds
   \<and>
   do_data (Suc (Suc 0))
     (rcpt_session\<lparr>nb := [Line (''Hello'' @ CRLF), Line CRLF, Line (''.'' @ CRLF)]\<rparr>)
   = Inl OutOfBounds"
  by (simp add: strip_trailing.simps libc_defs size_t_simps io_defs reply_defs data_defs
      example_defs Let_def)

text \<open>
  C3 (the code departs from the claim). The claim asks for a well-formed failure reply and
  the result Terminate (-1) when the stream ends inside DATA. The loop condition compares
  the \<open>size_t\<close> variable \<open>len\<close> with 0 and holds for every value, so the statements after
  the loop are never reached. When the connection is closed every read returns 0 and the
  loop goes on reading: do_data has not returned whatever the fuel. When the read fails
  with -1, \<open>len\<close> is the largest \<open>size_t\<close> and the loop reads \<open>recvbuf[len - 1]\<close> outside
  the array. Whenever do_data_loop does return, it returns 0 in state Data_input_done.
\<close>

theorem do_data_stream_end_no_reply:
  "do_data fuel (rcpt_session\<lparr>nb := []\<rparr>) = Inl OutOfFuel
   \<and> do_data (Suc fuel) (rcpt_session\<lparr>nb := [Failed]\<rparr>) = Inl OutOfBounds
   \<and> (\<forall>ms ms'. do_data_loop fuel ms \<noteq> Inr (- 1, ms'))"
proof -
  have closed: "do_data fuel (rcpt_session\<lparr>nb := []\<rparr>) = Inl OutOfFuel"
    by (rule do_data_closed) (simp_all add: nwords_def example_defs)
  have failed: "do_data (Suc fuel) (rcpt_session\<lparr>nb := [Failed]\<rparr>) = Inl OutOfBounds"
    by (simp add: strip_trailing.simps libc_defs size_t_simps io_defs reply_defs data_defs
        example_defs Let_def)
  have "do_data_loop fuel ms \<noteq> Inr (- 1, ms')" for ms ms'
    using do_data_loop_returns_0 [of fuel ms "- 1" ms'] by auto
  with closed failed show ?thesis by blast
qed

section \<open>The session loop on a blank line and at the end of the stream\<close>

lemma unat_line_length: "length bs < MAX_LINE_LENGTH \<Longrightarrow> unat (of_nat (length bs) :: size_t) = length bs"
  by (simp add: unat_of_nat MAX_LINE_LENGTH_def)

lemma recvbuf_at_newline:
  assumes "length bs < MAX_LINE_LENGTH"
  shows "recvbuf_at ((bs @ [LF]) @ [NUL]) (of_nat (length (bs @ [LF])) - 1) = Inr LF"
proof -
  have "(of_nat (length (bs @ [LF])) - 1 :: size_t) = of_nat (length bs)" by simp
  then show ?thesis
    using assms
    by (simp only: recvbuf_at_def unat_line_length [OF assms])
       (simp add: MAX_LINE_LENGTH_def nth_append)
qed

lemma whitespace_command_out_of_bounds:
  assumes "\<forall>c \<in> set bs. isspace c" and "length bs < MAX_LINE_LENGTH"
  shows "read_command is_valid_user fuel (ms\<lparr>nb := Line (bs @ [LF]) # rest\<rparr>) = Inl OutOfBounds"
proof -
  let ?line = "bs @ [LF]"
  have lf: "isspace LF" by (simp add: isspace_def LF_def)
  have nn: "\<not> isspace NUL" by (simp add: isspace_def NUL_def)
  have sp: "\<forall>c \<in> set ?line. isspace c"
    using assms(1) lf by simp
  with nn have "NUL \<notin> set ?line" by blast
  then have cs: "cstr (?line @ [NUL]) = ?line" by (rule cstr_terminated)
  have at': "recvbuf_at (?line @ [NUL]) (of_nat (length ?line) - 1) = Inr LF"
    using assms(2) by (rule recvbuf_at_newline)
  have strip: "strip_trailing (?line @ [NUL]) (of_nat (length ?line)) = Inl OutOfBounds"
    using sp assms(2) by (intro strip_trailing_whitespace_only) simp_all
  have nlt: "\<not> strlen ?line < of_nat (length ?line)"
    by (simp only: strlen_def less_irrefl not_False_eq_True)
  have rd: "nb_read_line (ms\<lparr>nb := Line ?line # rest\<rparr>)
      = (int (length ?line), ms\<lparr>nb := rest, recvbuf := ?line @ [NUL]\<rparr>)"
    by (simp add: nb_read_line_def)
  have body: "loop_body is_valid_user fuel (ms\<lparr>nb := rest, recvbuf := ?line @ [NUL]\<rparr>)
          (of_nat (length ?line)) = Inl OutOfBounds"
  proof -
    have sel: "recvbuf (ms\<lparr>nb := rest, recvbuf := ?line @ [NUL]\<rparr>) = ?line @ [NUL]" by simp
    show ?thesis
      unfolding loop_body_def
      by (simp only: sel at' cs nlt sum.case strip if_False if_True simp_thms)
  qed
  have w: "(word_of_int (int (length ?line)) :: size_t) = of_nat (length ?line)"
    by (simp only: of_int_of_nat_eq)
  show ?thesis
    unfolding read_command_def rd
    by (simp only: prod.case Let_def w word_zero_le not_True_eq_False if_False body)
qed

text \<open>
  C2 (the code departs from the claim). The claim asks that a command line of whitespace
  only is answered with 500 and that the line buffer is never read below index 0.
  handle_client strips such a line to length 0 and then reads \<open>recvbuf[len - 1]\<close> with
  \<open>len = 0\<close>; for the line CRLF the turn of the loop ends in that read, outside the
  array, and no reply has been sent. Had the read been survived, split would find no word
  and \<open>words[0]\<close> would be compared with the verbs all the same. Lemma
  \<open>whitespace_command_out_of_bounds\<close> shows the out-of-bounds read for every command
  line of whitespace only.
\<close>

theorem blank_command_out_of_bounds:
  "read_command is_valid_user fuel (session0\<lparr>nb := [Line CRLF]\<rparr>) = Inl OutOfBounds
   \<and> dispatch is_valid_user fuel (session0\<lparr>words := split []\<rparr>) = Inl NullPointer"
  by (simp add: strip_trailing.simps libc_defs size_t_simps io_defs loop_defs example_defs)

text \<open>
  C9 (the code departs from the claim). The claim asks that the session loop ends at once,
  through its exit condition, when the Line Reader reports the end of the stream or a
  failure. The condition \<open>len >= 0\<close> is on a \<open>size_t\<close> and holds for every value the read
  returns, so the body of the loop runs also then; its first statement reads
  \<open>recvbuf[len - 1]\<close>, which for the return values 0 and -1 lies outside the array.
\<close>

theorem handle_client_read_failure_enters_body:
  "(0 :: size_t) \<le> word_of_int (fst (nb_read_line ms))
   \<and> handle_client is_valid_user (Suc fuel) (ms\<lparr>fd_up := True, nb := []\<rparr>) = Inl OutOfBounds
   \<and> handle_client is_valid_user (Suc fuel) (ms\<lparr>fd_up := True, nb := [Failed]\<rparr>) = Inl OutOfBounds"
  by (simp add: libc_defs size_t_simps io_defs loop_defs)

section \<open>Argument words\<close>

lemma clear_buffers_eq:
  "clear_buffers ms =
     ms\<lparr>reverse_path_buffer := None, forward_path_buffer := None, mail_data_buffer := None\<rparr>"
  by (cases ms) (simp add: clear_buffers_def Let_def)

lemma tolower_lt: "tolower c = CHR ''<'' \<Longrightarrow> c = CHR ''<''"
  by (auto simp: tolower_def split: if_splits)

lemma tolower_of_lt: "tolower (CHR ''<'') = CHR ''<''"
  by (simp add: tolower_def)

lemma prefix_length:
  assumes "strncasecmp w p n" and "n \<le> length p"
  shows "n \<le> length w"
proof -
  from assms(1) have "map tolower (take n w) = map tolower (take n p)"
    by (simp only: strncasecmp_def)
  then have "length (map tolower (take n w)) = length (map tolower (take n p))"
    by (rule arg_cong)
  with assms(2) show ?thesis by simp
qed

lemma prefix_nth:
  assumes "strncasecmp w p n" and "i < n" and "n \<le> length p"
  shows "tolower (w ! i) = tolower (p ! i)"
proof -
  have len: "n \<le> length w" using assms(1,3) by (rule prefix_length)
  from assms(1) have "map tolower (take n w) = map tolower (take n p)"
    by (simp only: strncasecmp_def)
  then have "map tolower (take n w) ! i = map tolower (take n p) ! i"
    by (rule arg_cong)
  with assms(2,3) len show ?thesis by simp
qed

lemma mail_word_length:
  assumes "strncasecmp w ''FROM:<'' 6" and "last w = CHR ''>''"
  shows "7 \<le> length w"
proof -
  have six: "6 \<le> length w" using prefix_length [OF assms(1)] by simp
  have "tolower (w ! 5) = tolower (''FROM:<'' ! 5)"
    by (rule prefix_nth [OF assms(1)]) simp_all
  also have "\<dots> = CHR ''<''" by (simp add: tolower_of_lt)
  finally have lt: "w ! 5 = CHR ''<''" by (rule tolower_lt)
  show ?thesis
  proof (rule ccontr)
    assume "\<not> 7 \<le> length w"
    with six have l: "length w = 6" by simp
    then have "w \<noteq> []" by auto
    then have "last w = w ! 5" using l by (simp add: last_conv_nth)
    with lt assms(2) show False by simp
  qed
qed

lemma rcpt_word_length:
  assumes "strncasecmp w ''TO:<'' 4" and "last w = CHR ''>''"
  shows "5 \<le> length w"
proof -
  have four: "4 \<le> length w" using prefix_length [OF assms(1)] by simp
  have "tolower (w ! 3) = tolower (''TO:<'' ! 3)"
    by (rule prefix_nth [OF assms(1)]) simp_all
  also have "\<dots> = CHR ''<''" by (simp add: tolower_of_lt)
  finally have lt: "w ! 3 = CHR ''<''" by (rule tolower_lt)
  show ?thesis
  proof (rule ccontr)
    assume "\<not> 5 \<le> length w"
    with four have l: "length w = 4" by simp
    then have "w \<noteq> []" by auto
    then have "last w = w ! 3" using l by (simp add: last_conv_nth)
    with lt assms(2) show False by simp
  qed
qed

section \<open>What each handler returns\<close>


lemma do_mail_syntax:
  "\<not> mail_syntax_ok ms \<Longrightarrow> do_mail ms = Inr (1, replied ms syntax_reply)"
  by (auto simp: do_mail_def mail_syntax_ok_def syntax_error_def send_formatted_def
      replied_def syntax_reply_def)

lemma do_mail_sequence:
  "mail_syntax_ok ms \<Longrightarrow> \<not> (state ms = Executed_Helo \<or> state ms = Data_input_done) \<Longrightarrow>
   do_mail ms = Inr (1, replied ms sequence_reply)"
  by (auto simp: do_mail_def mail_syntax_ok_def wrong_sequence_def send_formatted_def
      replied_def sequence_reply_def)

lemma do_mail_success:
  assumes "mail_syntax_ok ms" and "state ms = Executed_Helo \<or> state ms = Data_input_done"
  shows "do_mail ms =
     Inr (0, ms\<lparr>reverse_path_buffer := Some [take (length (words ms ! 1) - 7) (drop 6 (words ms ! 1))],
               forward_path_buffer := None, mail_data_buffer := None,
               fd := fd ms @ [''250 ok (mail)'' @ CRLF], state := Mail_transaction_open\<rparr>)"
proof -
  from assms(1) have "7 \<le> length (words ms ! 1)"
    by (simp add: mail_syntax_ok_def mail_word_length)
  with assms show ?thesis
    by (auto simp: do_mail_def mail_syntax_ok_def clear_buffers_eq send_formatted_def
        user_list_create_def user_list_add_def users_def Let_def nat_diff_distrib')
qed


lemma do_rcpt_syntax:
  "\<not> rcpt_syntax_ok ms \<Longrightarrow> do_rcpt is_valid_user ms = Inr (1, replied ms syntax_reply)"
  by (auto simp: do_rcpt_def rcpt_syntax_ok_def syntax_error_def send_formatted_def
      replied_def syntax_reply_def)

lemma do_rcpt_sequence:
  "rcpt_syntax_ok ms \<Longrightarrow> \<not> (state ms = Mail_transaction_open \<or> state ms = Recipient_provided) \<Longrightarrow>
   do_rcpt is_valid_user ms = Inr (1, replied ms sequence_reply)"
  by (auto simp: do_rcpt_def rcpt_syntax_ok_def wrong_sequence_def send_formatted_def
      replied_def sequence_reply_def)

lemma do_rcpt_checked:
  assumes "rcpt_syntax_ok ms"
    and "state ms = Mail_transaction_open \<or> state ms = Recipient_provided"
  shows "do_rcpt is_valid_user ms =
     (let forward_path = take (length (words ms ! 1) - 5) (drop 4 (words ms ! 1)) in
      if is_valid_user forward_path then
        Inr (0, ms\<lparr>forward_path_buffer := Some (users (forward_path_buffer ms) @ [forward_path]),
                  state := Recipient_provided, fd := fd ms @ [''250 OK (rcpt)'' @ CRLF]\<rparr>)
      else Inr (1, replied ms (''550 No such user - '' @ forward_path @ CRLF)))"
proof -
  from assms(1) have "5 \<le> length (words ms ! 1)"
    by (simp add: rcpt_syntax_ok_def rcpt_word_length)
  with assms show ?thesis
    by (auto simp: do_rcpt_def rcpt_syntax_ok_def send_formatted_def replied_def
        user_list_create_def user_list_add_def users_def Let_def nat_diff_distrib')
qed

lemma do_helo_syntax:
  "nwords ms \<noteq> 2 \<Longrightarrow> do_helo ms = (1, replied ms arguments_reply)"
  by (simp add: do_helo_def send_formatted_def replied_def arguments_reply_def)

lemma do_helo_sequence:
  "nwords ms = 2 \<Longrightarrow> state ms \<noteq> Init \<Longrightarrow> do_helo ms = (1, replied ms sequence_reply)"
  by (simp add: do_helo_def wrong_sequence_def send_formatted_def replied_def sequence_reply_def)

lemma do_data_syntax:
  "nwords ms \<noteq> 1 \<Longrightarrow> do_data fuel ms = Inr (1, replied ms syntax_reply)"
  by (simp add: do_data_def syntax_error_def send_formatted_def replied_def syntax_reply_def)

lemma do_data_sequence:
  "nwords ms = 1 \<Longrightarrow> state ms \<noteq> Recipient_provided \<Longrightarrow>
   do_data fuel ms = Inr (1, replied ms sequence_reply)"
  by (simp add: do_data_def wrong_sequence_def send_formatted_def replied_def sequence_reply_def)

lemma do_mail_no_fault: "do_mail ms \<noteq> Inl e"
proof (cases "mail_syntax_ok ms")
  case False
  then show ?thesis by (simp add: do_mail_syntax)
next
  case True
  then show ?thesis
    by (cases "state ms = Executed_Helo \<or> state ms = Data_input_done")
       (simp_all only: do_mail_success do_mail_sequence sum.distinct not_False_eq_True)
qed

lemma do_rcpt_no_fault: "do_rcpt is_valid_user ms \<noteq> Inl e"
proof (cases "rcpt_syntax_ok ms")
  case False
  then show ?thesis by (simp add: do_rcpt_syntax)
next
  case True
  then show ?thesis
    by (cases "state ms = Mail_transaction_open \<or> state ms = Recipient_provided")
       (simp_all add: do_rcpt_checked do_rcpt_sequence Let_def)
qed

lemma short_mail_word: "length w < 7 \<Longrightarrow> words ms = [verb, w] \<Longrightarrow> \<not> mail_syntax_ok ms"
  using mail_word_length [of w] by (auto simp: mail_syntax_ok_def)

lemma short_rcpt_word: "length w < 5 \<Longrightarrow> words ms = [verb, w] \<Longrightarrow> \<not> rcpt_syntax_ok ms"
  using rcpt_word_length [of w] by (auto simp: rcpt_syntax_ok_def)

lemma bracketed_mail_ok: "words ms = [verb, ''FROM:<'' @ addr @ ''>''] \<Longrightarrow> mail_syntax_ok ms"
  by (simp add: mail_syntax_ok_def nwords_def strncasecmp_def)

lemma bracketed_rcpt_ok: "words ms = [verb, ''TO:<'' @ addr @ ''>''] \<Longrightarrow> rcpt_syntax_ok ms"
  by (simp add: rcpt_syntax_ok_def nwords_def strncasecmp_def)

section \<open>Order of the argument check and the state check\<close>

text \<open>
  C4, as stated, fails: the claim has HELO/EHLO and DATA check the state first, so that a
  command with malformed arguments in a wrong state is answered with 503. do_data, like
  do_helo, compares \<open>nwords\<close> before it looks at the state: DATA with an argument, sent
  before HELO, is answered with 501.
\<close>

theorem data_with_argument_gets_501:
  "nwords (session0\<lparr>words := [''DATA'', ''now'']\<rparr>) \<noteq> 1
   \<and> state (session0\<lparr>words := [''DATA'', ''now'']\<rparr>) \<noteq> Recipient_provided
   \<and> do_data (Suc 0) (session0\<lparr>words := [''DATA'', ''now'']\<rparr>)
       = Inr (1, replied (session0\<lparr>words := [''DATA'', ''now'']\<rparr>) syntax_reply)
   \<and> do_data (Suc 0) (session0\<lparr>words := [''DATA'', ''now'']\<rparr>)
       \<noteq> Inr (1, replied (session0\<lparr>words := [''DATA'', ''now'']\<rparr>) sequence_reply)
   \<and> take 3 syntax_reply = ''501''"
  by (simp add: do_data_syntax nwords_def session0_def syntax_reply_def sequence_reply_def
      replied_def)

text \<open>
  C4, amended: every handler checks the arguments first. A MAIL, RCPT, HELO/EHLO or DATA
  command whose arguments are malformed is answered with 501 whatever the state; a
  HELO/EHLO or DATA command in a wrong state is answered with 503 when its arguments are
  well-formed. In all these cases the handler returns 1 and the session is the one before
  with the reply added: state and buffers are unchanged.
\<close>

theorem syntax_checked_before_state:
  "(\<not> mail_syntax_ok ms \<longrightarrow> do_mail ms = Inr (1, replied ms syntax_reply))
   \<and> (\<not> rcpt_syntax_ok ms \<longrightarrow> do_rcpt is_valid_user ms = Inr (1, replied ms syntax_reply))
   \<and> (nwords ms \<noteq> 2 \<longrightarrow> do_helo ms = (1, replied ms arguments_reply))
   \<and> (nwords ms \<noteq> 1 \<longrightarrow> do_data fuel ms = Inr (1, replied ms syntax_reply))
   \<and> (nwords ms = 2 \<and> state ms \<noteq> Init \<longrightarrow> do_helo ms = (1, replied ms sequence_reply))
   \<and> (nwords ms = 1 \<and> state ms \<noteq> Recipient_provided \<longrightarrow>
        do_data fuel ms = Inr (1, replied ms sequence_reply))
   \<and> take 3 syntax_reply = ''501'' \<and> take 3 arguments_reply = ''501''
   \<and> take 3 sequence_reply = ''503''"
  by (simp add: do_mail_syntax do_rcpt_syntax do_helo_syntax do_data_syntax do_helo_sequence
      do_data_sequence syntax_reply_def arguments_reply_def sequence_reply_def)

theorem syntax_checked_before_state_witness:
  "do_mail (session0\<lparr>words := [''MAIL'', ''FROM:alice'']\<rparr>)
     = Inr (1, replied (session0\<lparr>words := [''MAIL'', ''FROM:alice'']\<rparr>) syntax_reply)
   \<and> do_rcpt (\<lambda>u. True) (session0\<lparr>words := [''RCPT'', ''TO:<bob'']\<rparr>)
     = Inr (1, replied (session0\<lparr>words := [''RCPT'', ''TO:<bob'']\<rparr>) syntax_reply)
   \<and> do_helo (rcpt_session\<lparr>words := [''HELO'']\<rparr>)
     = (1, replied (rcpt_session\<lparr>words := [''HELO'']\<rparr>) arguments_reply)
   \<and> do_data 0 (session0\<lparr>words := [''DATA'', ''now'']\<rparr>)
     = Inr (1, replied (session0\<lparr>words := [''DATA'', ''now'']\<rparr>) syntax_reply)
   \<and> do_helo (rcpt_session\<lparr>words := [''HELO'', ''client'']\<rparr>)
     = (1, replied (rcpt_session\<lparr>words := [''HELO'', ''client'']\<rparr>) sequence_reply)
   \<and> do_data 0 (session0\<lparr>words := [''DATA'']\<rparr>)
     = Inr (1, replied (session0\<lparr>words := [''DATA'']\<rparr>) sequence_reply)"
proof -
  note c1 = syntax_checked_before_state [THEN conjunct1, THEN mp]
  note c2 = syntax_checked_before_state [THEN conjunct2, THEN conjunct1, THEN mp]
  note c3 = syntax_checked_before_state [THEN conjunct2, THEN conjunct2, THEN conjunct1, THEN mp]
  note c4 = syntax_checked_before_state
    [THEN conjunct2, THEN conjunct2, THEN conjunct2, THEN conjunct1, THEN mp]
  note c5 = syntax_checked_before_state
    [THEN conjunct2, THEN conjunct2, THEN conjunct2, THEN conjunct2, THEN conjunct1, THEN mp]
  note c6 = syntax_checked_before_state
    [THEN conjunct2, THEN conjunct2, THEN conjunct2, THEN conjunct2, THEN conjunct2,
     THEN conjunct1, THEN mp]
  have "do_mail (session0\<lparr>words := [''MAIL'', ''FROM:alice'']\<rparr>)
     = Inr (1, replied (session0\<lparr>words := [''MAIL'', ''FROM:alice'']\<rparr>) syntax_reply)"
    by (rule c1) (simp add: mail_syntax_ok_def strncasecmp_def tolower_def)
  moreover have "do_rcpt (\<lambda>u. True) (session0\<lparr>words := [''RCPT'', ''TO:<bob'']\<rparr>)
     = Inr (1, replied (session0\<lparr>words := [''RCPT'', ''TO:<bob'']\<rparr>) syntax_reply)"
    by (rule c2) (simp add: rcpt_syntax_ok_def)
  moreover have "do_helo (rcpt_session\<lparr>words := [''HELO'']\<rparr>)
     = (1, replied (rcpt_session\<lparr>words := [''HELO'']\<rparr>) arguments_reply)"
    by (rule c3) (simp add: nwords_def)
  moreover have "do_data 0 (session0\<lparr>words := [''DATA'', ''now'']\<rparr>)
     = Inr (1, replied (session0\<lparr>words := [''DATA'', ''now'']\<rparr>) syntax_reply)"
    by (rule c4) (simp add: nwords_def)
  moreover have "do_helo (rcpt_session\<lparr>words := [''HELO'', ''client'']\<rparr>)
     = (1, replied (rcpt_session\<lparr>words := [''HELO'', ''client'']\<rparr>) sequence_reply)"
    by (rule c5) (simp add: nwords_def rcpt_session_def)
  moreover have "do_data 0 (session0\<lparr>words := [''DATA'']\<rparr>)
     = Inr (1, replied (session0\<lparr>words := [''DATA'']\<rparr>) sequence_reply)"
    by (rule c6) (simp add: nwords_def session0_def)
  ultimately show ?thesis by (intro conjI)
qed

section \<open>Commands in a wrong state\<close>

lemma replied_inject: "(replied ms a = replied ms b) = (a = b)"
proof
  assume "replied ms a = replied ms b"
  then have "fd (replied ms a) = fd (replied ms b)" by (rule arg_cong)
  then show "a = b" by (simp add: replied_def)
qed simp

text \<open>
  C8, as stated, fails: the claim has every verb in a state outside its row of the
  transition table answered with 503. HELO without a domain, sent after the greeting
  exchange (state Executed_Helo), is answered with 501, because do_helo checks the number
  of words before the state.
\<close>

theorem helo_without_domain_gets_501:
  "state (rcpt_session\<lparr>state := Executed_Helo, words := [''HELO'']\<rparr>) \<noteq> Init
   \<and> do_helo (rcpt_session\<lparr>state := Executed_Helo, words := [''HELO'']\<rparr>)
       = (1, replied (rcpt_session\<lparr>state := Executed_Helo, words := [''HELO'']\<rparr>) arguments_reply)
   \<and> do_helo (rcpt_session\<lparr>state := Executed_Helo, words := [''HELO'']\<rparr>)
       \<noteq> (1, replied (rcpt_session\<lparr>state := Executed_Helo, words := [''HELO'']\<rparr>) sequence_reply)
   \<and> take 3 arguments_reply = ''501''"
  by (simp add: do_helo_syntax nwords_def arguments_reply_def sequence_reply_def replied_inject
      rcpt_session_def)

text \<open>
  C8, amended: for every verb and state outside the transition table (HELO/EHLO outside
  Init; MAIL outside Executed_Helo and Data_input_done; RCPT outside Mail_transaction_open
  and Recipient_provided; DATA outside Recipient_provided) the handler returns 1 and
  leaves state, reverse path, recipients and message body unchanged; its reply is 503 when
  the arguments pass the handler's argument check and 501 when they do not. checkstate,
  which no handler calls, replies 503 and changes nothing when the state is not the one
  asked for.
\<close>

theorem wrong_state_leaves_session:
  "(state ms \<noteq> Init \<longrightarrow>
      do_helo ms = (1, replied ms (if nwords ms = 2 then sequence_reply else arguments_reply)))
   \<and> (\<not> (state ms = Executed_Helo \<or> state ms = Data_input_done) \<longrightarrow>
      do_mail ms = Inr (1, replied ms (if mail_syntax_ok ms then sequence_reply else syntax_reply)))
   \<and> (\<not> (state ms = Mail_transaction_open \<or> state ms = Recipient_provided) \<longrightarrow>
      do_rcpt is_valid_user ms
        = Inr (1, replied ms (if rcpt_syntax_ok ms then sequence_reply else syntax_reply)))
   \<and> (state ms \<noteq> Recipient_provided \<longrightarrow>
      do_data fuel ms = Inr (1, replied ms (if nwords ms = 1 then sequence_reply else syntax_reply)))
   \<and> (state ms \<noteq> s \<longrightarrow> snd (checkstate ms s) = replied ms bad_sequence_reply)
   \<and> state (replied ms reply) = state ms
   \<and> reverse_path_buffer (replied ms reply) = reverse_path_buffer ms
   \<and> forward_path_buffer (replied ms reply) = forward_path_buffer ms
   \<and> mail_data_buffer (replied ms reply) = mail_data_buffer ms
   \<and> take 3 sequence_reply = ''503'' \<and> take 3 bad_sequence_reply = ''503''"
  by (simp add: do_mail_syntax do_mail_sequence do_rcpt_syntax do_rcpt_sequence do_helo_syntax
      do_data_syntax do_helo_sequence do_data_sequence checkstate_def send_formatted_def
      replied_def [of ms] sequence_reply_def bad_sequence_reply_def)

theorem wrong_state_leaves_session_witness:
  "do_helo (rcpt_session\<lparr>words := [''HELO'', ''client'']\<rparr>)
     = (1, replied (rcpt_session\<lparr>words := [''HELO'', ''client'']\<rparr>) sequence_reply)
   \<and> do_mail (session0\<lparr>words := [''MAIL'', ''FROM:<alice>'']\<rparr>)
     = Inr (1, replied (session0\<lparr>words := [''MAIL'', ''FROM:<alice>'']\<rparr>) sequence_reply)
   \<and> do_rcpt (\<lambda>u. True) (session0\<lparr>words := [''RCPT'', ''TO:<bob>'']\<rparr>)
     = Inr (1, replied (session0\<lparr>words := [''RCPT'', ''TO:<bob>'']\<rparr>) sequence_reply)
   \<and> do_data (Suc 0) (session0\<lparr>words := [''DATA'']\<rparr>)
     = Inr (1, replied (session0\<lparr>words := [''DATA'']\<rparr>) sequence_reply)
   \<and> snd (checkstate session0 Recipient_provided) = replied session0 bad_sequence_reply"
proof -
  note c1 = wrong_state_leaves_session [THEN conjunct1, THEN mp]
  note c2 = wrong_state_leaves_session [THEN conjunct2, THEN conjunct1, THEN mp]
  note c3 = wrong_state_leaves_session [THEN conjunct2, THEN conjunct2, THEN conjunct1, THEN mp]
  note c4 = wrong_state_leaves_session
    [THEN conjunct2, THEN conjunct2, THEN conjunct2, THEN conjunct1, THEN mp]
  note c5 = wrong_state_leaves_session
    [THEN conjunct2, THEN conjunct2, THEN conjunct2, THEN conjunct2, THEN conjunct1, THEN mp]
  have "do_helo (rcpt_session\<lparr>words := [''HELO'', ''client'']\<rparr>)
     = (1, replied (rcpt_session\<lparr>words := [''HELO'', ''client'']\<rparr>) sequence_reply)"
    using c1 [of "rcpt_session\<lparr>words := [''HELO'', ''client'']\<rparr>"]
    by (simp add: nwords_def rcpt_session_def)
  moreover have "do_mail (session0\<lparr>words := [''MAIL'', ''FROM:<alice>'']\<rparr>)
     = Inr (1, replied (session0\<lparr>words := [''MAIL'', ''FROM:<alice>'']\<rparr>) sequence_reply)"
    using c2 [of "session0\<lparr>words := [''MAIL'', ''FROM:<alice>'']\<rparr>"]
    by (simp add: bracketed_mail_ok [of _ _ "''alice''"] session0_def)
  moreover have "do_rcpt (\<lambda>u. True) (session0\<lparr>words := [''RCPT'', ''TO:<bob>'']\<rparr>)
     = Inr (1, replied (session0\<lparr>words := [''RCPT'', ''TO:<bob>'']\<rparr>) sequence_reply)"
    using c3 [of "session0\<lparr>words := [''RCPT'', ''TO:<bob>'']\<rparr>" "\<lambda>u. True"]
    by (simp add: bracketed_rcpt_ok [of _ _ "''bob''"] session0_def)
  moreover have "do_data (Suc 0) (session0\<lparr>words := [''DATA'']\<rparr>)
     = Inr (1, replied (session0\<lparr>words := [''DATA'']\<rparr>) sequence_reply)"
    using c4 [of "session0\<lparr>words := [''DATA'']\<rparr>" "Suc 0"]
    by (simp add: nwords_def session0_def)
  moreover have "snd (checkstate session0 Recipient_provided) = replied session0 bad_sequence_reply"
    by (rule c5) (simp add: session0_def)
  ultimately show ?thesis by (intro conjI)
qed

section \<open>MAIL\<close>

lemma spec_well_formed_mail:
  "spec_well_formed ''FROM:<'' w = (strncasecmp w ''FROM:<'' 6 \<and> last w = CHR ''>'')"
proof -
  have six: "length ''FROM:<'' = 6" by simp
  have "7 \<le> length w" if "strncasecmp w ''FROM:<'' 6" and "last w = CHR ''>''"
    using that by (rule mail_word_length)
  then show ?thesis
    unfolding spec_well_formed_def six strncasecmp_def by auto
qed

lemma spec_enclosed_path_mail:
  "spec_enclosed_path ''FROM:<'' w = take (length w - 7) (drop 6 w)"
proof -
  have six: "length ''FROM:<'' = 6" by simp
  show ?thesis
    unfolding spec_enclosed_path_def six by (simp add: butlast_conv_take)
qed

text \<open>
  C6. MAIL succeeds (do_mail returns 0) exactly when the state is Executed_Helo (Greeted)
  or Data_input_done (DataComplete) and the command has one argument word that is
  well-formed in the specification's sense. On success the recipient list is empty, the
  reverse path is exactly the address enclosed in the argument, whatever the buffers held
  before, the mail data buffer is empty, the state is Mail_transaction_open and the reply
  is the 250 line.
\<close>

theorem mail_succeeds_exactly:
  "(map_sum id fst (do_mail ms) = Inr 0) =
     ((state ms = Executed_Helo \<or> state ms = Data_input_done) \<and> nwords ms = 2
      \<and> spec_well_formed ''FROM:<'' (words ms ! 1))
   \<and> (do_mail ms = Inr (0, ms') \<longrightarrow>
        users (forward_path_buffer ms') = []
        \<and> users (reverse_path_buffer ms') = [spec_enclosed_path ''FROM:<'' (words ms ! 1)]
        \<and> mail_data_buffer ms' = None
        \<and> state ms' = Mail_transaction_open
        \<and> fd ms' = fd ms @ [''250 ok (mail)'' @ CRLF])"
proof (cases "mail_syntax_ok ms")
  case False
  then have "do_mail ms = Inr (1, replied ms syntax_reply)" by (rule do_mail_syntax)
  with False show ?thesis
    by (auto simp: mail_syntax_ok_def spec_well_formed_mail)
next
  case ok: True
  show ?thesis
  proof (cases "state ms = Executed_Helo \<or> state ms = Data_input_done")
    case False
    with ok have "do_mail ms = Inr (1, replied ms sequence_reply)" by (rule do_mail_sequence)
    with False show ?thesis by auto
  next
    case True
    with ok show ?thesis
      by (auto simp: do_mail_success mail_syntax_ok_def spec_well_formed_mail
          spec_enclosed_path_mail users_def)
  qed
qed

theorem mail_succeeds_exactly_witness:
  "do_mail (rcpt_session\<lparr>state := Data_input_done, words := [''MAIL'', ''From:<carol@example.org>'']\<rparr>)
     = Inr (0, rcpt_session\<lparr>state := Mail_transaction_open,
                 words := [''MAIL'', ''From:<carol@example.org>''],
                 reverse_path_buffer := Some [''carol@example.org''],
                 forward_path_buffer := None, fd := [''250 ok (mail)'' @ CRLF]\<rparr>)
   \<and> users (reverse_path_buffer (rcpt_session\<lparr>state := Mail_transaction_open,
                 words := [''MAIL'', ''From:<carol@example.org>''],
                 reverse_path_buffer := Some [''carol@example.org''],
                 forward_path_buffer := None, fd := [''250 ok (mail)'' @ CRLF]\<rparr>))
       = [spec_enclosed_path ''FROM:<'' ''From:<carol@example.org>'']"
proof -
  have run: "do_mail (rcpt_session\<lparr>state := Data_input_done, words := [''MAIL'', ''From:<carol@example.org>'']\<rparr>)
     = Inr (0, rcpt_session\<lparr>state := Mail_transaction_open,
                 words := [''MAIL'', ''From:<carol@example.org>''],
                 reverse_path_buffer := Some [''carol@example.org''],
                 forward_path_buffer := None, fd := [''250 ok (mail)'' @ CRLF]\<rparr>)"
    by (simp add: do_mail_def nwords_def libc_defs io_defs reply_defs clear_buffers_def Let_def
        example_defs)
  from mail_succeeds_exactly [THEN conjunct2, THEN mp, OF run] run
  show ?thesis by simp
qed

section \<open>The address in MAIL and RCPT\<close>

lemma round_trip_mail:
  "take (length (''FROM:<'' @ addr @ ''>'') - 7) (drop 6 (''FROM:<'' @ addr @ ''>'')) = addr"
  by simp

lemma round_trip_rcpt:
  "take (length (''TO:<'' @ addr @ ''>'') - 5) (drop 4 (''TO:<'' @ addr @ ''>'')) = addr"
  by simp

text \<open>
  C5. For every address, MAIL with the single argument word \<open>FROM:<addr>\<close> stores exactly
  \<open>addr\<close> as the reverse path, and RCPT with \<open>TO:<addr>\<close> passes exactly \<open>addr\<close> to the
  User Directory and appends it to the recipients (or names it in the 550 reply). An
  argument word shorter than prefix and suffix together (7 characters for MAIL, 5 for RCPT)
  is answered with the 501 syntax reply, and neither handler ever declares its path array
  with a negative length.
\<close>

theorem address_parser_round_trip:
  "(words ms = [verb, ''FROM:<'' @ addr @ ''>'']
      \<and> (state ms = Executed_Helo \<or> state ms = Data_input_done) \<longrightarrow>
      map_sum id (\<lambda>(r, ms'). (r, reverse_path_buffer ms')) (do_mail ms) = Inr (0, Some [addr]))
   \<and> (words ms = [verb, ''TO:<'' @ addr @ ''>'']
      \<and> (state ms = Mail_transaction_open \<or> state ms = Recipient_provided) \<longrightarrow>
      map_sum id (\<lambda>(r, ms'). (r, forward_path_buffer ms', last (fd ms')))
        (do_rcpt is_valid_user ms)
      = (if is_valid_user addr
         then Inr (0, Some (users (forward_path_buffer ms) @ [addr]), ''250 OK (rcpt)'' @ CRLF)
         else Inr (1, forward_path_buffer ms, ''550 No such user - '' @ addr @ CRLF)))
   \<and> (words ms = [verb, w] \<and> length w < 7 \<longrightarrow> do_mail ms = Inr (1, replied ms syntax_reply))
   \<and> (words ms = [verb, w] \<and> length w < 5 \<longrightarrow>
        do_rcpt is_valid_user ms = Inr (1, replied ms syntax_reply))
   \<and> do_mail ms \<noteq> Inl NegativeLength
   \<and> do_rcpt is_valid_user ms \<noteq> Inl NegativeLength"
proof (intro conjI impI)
  assume a: "words ms = [verb, ''FROM:<'' @ addr @ ''>'']
      \<and> (state ms = Executed_Helo \<or> state ms = Data_input_done)"
  then have ok: "mail_syntax_ok ms" by (simp add: bracketed_mail_ok)
  from a have st: "state ms = Executed_Helo \<or> state ms = Data_input_done" by simp
  from a have w: "words ms ! 1 = ''FROM:<'' @ addr @ ''>''" by simp
  show "map_sum id (\<lambda>(r, ms'). (r, reverse_path_buffer ms')) (do_mail ms) = Inr (0, Some [addr])"
    unfolding do_mail_success [OF ok st] w round_trip_mail by simp
next
  assume a: "words ms = [verb, ''TO:<'' @ addr @ ''>'']
      \<and> (state ms = Mail_transaction_open \<or> state ms = Recipient_provided)"
  then have ok: "rcpt_syntax_ok ms" by (simp add: bracketed_rcpt_ok)
  from a have st: "state ms = Mail_transaction_open \<or> state ms = Recipient_provided" by simp
  from a have w: "words ms ! 1 = ''TO:<'' @ addr @ ''>''" by simp
  show "map_sum id (\<lambda>(r, ms'). (r, forward_path_buffer ms', last (fd ms')))
        (do_rcpt is_valid_user ms)
      = (if is_valid_user addr
         then Inr (0, Some (users (forward_path_buffer ms) @ [addr]), ''250 OK (rcpt)'' @ CRLF)
         else Inr (1, forward_path_buffer ms, ''550 No such user - '' @ addr @ CRLF))"
    unfolding do_rcpt_checked [OF ok st] w round_trip_rcpt by (simp add: replied_def)
next
  assume "words ms = [verb, w] \<and> length w < 7"
  then have "\<not> mail_syntax_ok ms" using short_mail_word [of w ms verb] by simp
  then show "do_mail ms = Inr (1, replied ms syntax_reply)" by (rule do_mail_syntax)
next
  assume "words ms = [verb, w] \<and> length w < 5"
  then have "\<not> rcpt_syntax_ok ms" using short_rcpt_word [of w ms verb] by simp
  then show "do_rcpt is_valid_user ms = Inr (1, replied ms syntax_reply)" by (rule do_rcpt_syntax)
next
  show "do_mail ms \<noteq> Inl NegativeLength" by (rule do_mail_no_fault)
next
  show "do_rcpt is_valid_user ms \<noteq> Inl NegativeLength" by (rule do_rcpt_no_fault)
qed


theorem address_parser_round_trip_witness:
  "map_sum id (\<lambda>(r, ms'). (r, reverse_path_buffer ms'))
     (do_mail (session0\<lparr>state := Executed_Helo, words := [''MAIL'', ''FROM:<'' @ ''alice@example.org'' @ ''>'']\<rparr>))
   = Inr (0, Some [''alice@example.org''])
   \<and> map_sum id (\<lambda>(r, ms'). (r, forward_path_buffer ms', last (fd ms')))
     (do_rcpt (\<lambda>u. u = ''dave'') (rcpt_session\<lparr>words := [''RCPT'', ''TO:<'' @ ''dave'' @ ''>'']\<rparr>))
   = Inr (0, Some [''bob'', ''dave''], ''250 OK (rcpt)'' @ CRLF)
   \<and> do_mail (session0\<lparr>words := [''MAIL'', ''FROM:<'']\<rparr>)
     = Inr (1, replied (session0\<lparr>words := [''MAIL'', ''FROM:<'']\<rparr>) syntax_reply)
   \<and> do_rcpt (\<lambda>u. True) (session0\<lparr>words := [''RCPT'', ''TO:>'']\<rparr>)
     = Inr (1, replied (session0\<lparr>words := [''RCPT'', ''TO:>'']\<rparr>) syntax_reply)"
proof -
  have "map_sum id (\<lambda>(r, ms'). (r, reverse_path_buffer ms'))
     (do_mail (session0\<lparr>state := Executed_Helo, words := [''MAIL'', ''FROM:<'' @ ''alice@example.org'' @ ''>'']\<rparr>))
   = Inr (0, Some [''alice@example.org''])"
    by (rule address_parser_round_trip [where verb = "''MAIL''", THEN conjunct1, THEN mp]) simp
  moreover have "map_sum id (\<lambda>(r, ms'). (r, forward_path_buffer ms', last (fd ms')))
     (do_rcpt (\<lambda>u. u = ''dave'') (rcpt_session\<lparr>words := [''RCPT'', ''TO:<'' @ ''dave'' @ ''>'']\<rparr>))
   = Inr (0, Some [''bob'', ''dave''], ''250 OK (rcpt)'' @ CRLF)"
    using address_parser_round_trip
      [where ms = "rcpt_session\<lparr>words := [''RCPT'', ''TO:<'' @ ''dave'' @ ''>'']\<rparr>"
         and verb = "''RCPT''" and addr = "''dave''" and is_valid_user = "\<lambda>u. u = ''dave''",
       THEN conjunct2, THEN conjunct1]
    by (simp add: rcpt_session_def users_def)
  moreover have "do_mail (session0\<lparr>words := [''MAIL'', ''FROM:<'']\<rparr>)
     = Inr (1, replied (session0\<lparr>words := [''MAIL'', ''FROM:<'']\<rparr>) syntax_reply)"
    by (rule address_parser_round_trip
          [where verb = "''MAIL''" and w = "''FROM:<''",
           THEN conjunct2, THEN conjunct2, THEN conjunct1, THEN mp]) simp
  moreover have "do_rcpt (\<lambda>u. True) (session0\<lparr>words := [''RCPT'', ''TO:>'']\<rparr>)
     = Inr (1, replied (session0\<lparr>words := [''RCPT'', ''TO:>'']\<rparr>) syntax_reply)"
    by (rule address_parser_round_trip
          [where verb = "''RCPT''" and w = "''TO:>''",
           THEN conjunct2, THEN conjunct2, THEN conjunct2, THEN conjunct1, THEN mp]) simp
  ultimately show ?thesis by (intro conjI)
qed

section \<open>The buffers over a session\<close>

lemma session_inv_frame:
  assumes "state a = state b" and "reverse_path_buffer a = reverse_path_buffer b"
    and "forward_path_buffer a = forward_path_buffer b"
    and "mail_data_buffer a = mail_data_buffer b"
  shows "session_inv ms0 a = session_inv ms0 b"
  using assms by (simp add: session_inv_def)

lemma session_inv_replied [simp]: "session_inv ms0 (replied ms msg) = session_inv ms0 ms"
  by (rule session_inv_frame) (simp_all add: replied_def)

lemma session_inv_cleared:
  "all_clear ms \<Longrightarrow> state ms = Executed_Helo \<or> state ms = Data_input_done \<Longrightarrow>
   session_inv ms0 ms"
  by (auto simp: session_inv_def all_clear_def users_def)

lemma do_data_loop_clears: "do_data_loop fuel ms = Inr (r, ms') \<Longrightarrow> all_clear ms'"
proof (induction fuel arbitrary: ms)
  case 0
  then show ?case by simp
next
  case (Suc fuel)
  obtain n ms1 where rd: "nb_read_line ms = (n, ms1)"
    by (cases "nb_read_line ms")
  show ?case
  proof (cases "(word_of_int n :: size_t) = 0")
    case True
    with Suc rd show ?thesis by simp
  next
    case False
    with Suc.prems rd obtain buf len' where
      st: "strip_trailing (recvbuf ms1) (word_of_int n) = Inr (buf, len')"
      by (auto split: sum.splits)
    show ?thesis
    proof (cases "cstr buf = ''.''")
      case True
      with Suc.prems rd False st show ?thesis
        by (auto simp: send_formatted_def Let_def clear_buffers_eq all_clear_def)
    next
      case dot: False
      with Suc.prems rd False st obtain ms3 where
        "do_data_loop fuel ms3 = Inr (r, ms')"
        by (auto split: sum.splits)
      with Suc.IH show ?thesis by blast
    qed
  qed
qed

lemma do_data_inv:
  assumes "do_data fuel ms = Inr (r, ms')" and "session_inv ms0 ms"
  shows "session_inv ms0 ms'"
proof (cases "nwords ms = 1 \<and> state ms = Recipient_provided")
  case True
  with assms(1) obtain ms2 where "do_data_loop fuel ms2 = Inr (r, ms')"
    by (auto simp: do_data_def Let_def)
  then have "all_clear ms'" and "state ms' = Data_input_done"
    using do_data_loop_clears do_data_loop_returns_0 by blast+
  then show ?thesis by (simp add: session_inv_cleared)
next
  case False
  then have "\<exists>msg. do_data fuel ms = Inr (1, replied ms msg)"
    using do_data_syntax [of ms fuel] do_data_sequence [of ms fuel] by metis
  with assms show ?thesis by auto
qed

lemma do_mail_inv:
  assumes "do_mail ms = Inr (r, ms')" and "session_inv ms0 ms"
  shows "session_inv ms0 ms'"
proof (cases "mail_syntax_ok ms \<and> (state ms = Executed_Helo \<or> state ms = Data_input_done)")
  case True
  then have "do_mail ms =
     Inr (0, ms\<lparr>reverse_path_buffer := Some [take (length (words ms ! 1) - 7) (drop 6 (words ms ! 1))],
               forward_path_buffer := None, mail_data_buffer := None,
               fd := fd ms @ [''250 ok (mail)'' @ CRLF], state := Mail_transaction_open\<rparr>)"
    by (simp add: do_mail_success)
  with assms(1) show ?thesis by (auto simp: session_inv_def users_def)
next
  case False
  then have "\<exists>msg. do_mail ms = Inr (1, replied ms msg)"
    using do_mail_syntax [of ms] do_mail_sequence [of ms] by metis
  with assms show ?thesis by auto
qed

lemma do_rcpt_inv:
  assumes "do_rcpt is_valid_user ms = Inr (r, ms')" and "session_inv ms0 ms"
  shows "session_inv ms0 ms'"
proof (cases "rcpt_syntax_ok ms \<and> (state ms = Mail_transaction_open \<or> state ms = Recipient_provided)")
  case True
  then have rev: "users (reverse_path_buffer ms) \<noteq> []"
    using assms(2) by (auto simp: session_inv_def)
  from True assms(1) consider
    (accepted) "ms' = ms\<lparr>forward_path_buffer := Some (users (forward_path_buffer ms) @
                  [take (length (words ms ! 1) - 5) (drop 4 (words ms ! 1))]),
              state := Recipient_provided, fd := fd ms @ [''250 OK (rcpt)'' @ CRLF]\<rparr>"
    | (rejected) msg where "ms' = replied ms msg"
    by (auto simp: do_rcpt_checked Let_def split: if_splits)
  then show ?thesis
  proof cases
    case accepted
    with rev show ?thesis by (simp add: session_inv_def)
  next
    case rejected
    with assms(2) show ?thesis by simp
  qed
next
  case False
  then have "\<exists>msg. do_rcpt is_valid_user ms = Inr (1, replied ms msg)"
    using do_rcpt_syntax [of ms] do_rcpt_sequence [of ms] by metis
  with assms show ?thesis by auto
qed

lemma do_helo_inv: "session_inv ms0 ms \<Longrightarrow> session_inv ms0 (snd (do_helo ms))"
  by (auto simp: do_helo_def wrong_sequence_def send_formatted_def session_inv_def users_def
      Let_def)

lemma do_rset_inv: "session_inv ms0 ms \<Longrightarrow> session_inv ms0 (snd (do_rset ms))"
  by (auto simp: do_rset_def send_formatted_def session_inv_def users_def clear_buffers_eq
      Let_def)

lemma do_quit_inv: "session_inv ms0 ms \<Longrightarrow> session_inv ms0 (snd (do_quit ms))"
  by (simp add: do_quit_def send_formatted_def session_inv_def)

lemma do_noop_inv: "session_inv ms0 ms \<Longrightarrow> session_inv ms0 (snd (do_noop ms))"
  by (simp add: do_noop_def send_formatted_def session_inv_def)

lemma do_vrfy_inv: "session_inv ms0 ms \<Longrightarrow> session_inv ms0 (snd (do_vrfy is_valid_user ms))"
  by (simp add: do_vrfy_def syntax_error_def send_formatted_def session_inv_def)


lemma unless_exit_result:
  "map_sum id unless_exit x = Inr (c, ms') \<Longrightarrow> \<exists>r. x = Inr (r, ms')"
  by (cases x) (auto simp: unless_exit_def)

lemma dispatch_inv:
  assumes "dispatch is_valid_user fuel ms = Inr (c, ms')" and "session_inv ms0 ms"
  shows "session_inv ms0 ms'"
proof (cases "words ms")
  case Nil
  with assms(1) show ?thesis by (simp add: dispatch_def)
next
  case (Cons command args)
  from assms(1) consider
      (quit) "ms' = snd (do_quit ms)"
    | (helo) "ms' = snd (do_helo ms)"
    | (mail) "map_sum id unless_exit (do_mail ms) = Inr (c, ms')"
    | (rcpt) "map_sum id unless_exit (do_rcpt is_valid_user ms) = Inr (c, ms')"
    | (data) "map_sum id unless_exit (do_data fuel ms) = Inr (c, ms')"
    | (rset) "ms' = snd (do_rset ms)"
    | (noop) "ms' = snd (do_noop ms)"
    | (vrfy) "ms' = snd (do_vrfy is_valid_user ms)"
    | (other) msg where "ms' = replied ms msg"
    unfolding dispatch_def Cons list.case
    by (auto simp: unless_exit_def unless_failed_def send_formatted_def replied_def
        split: if_splits)
  then show ?thesis
  proof cases
    case quit
    with assms(2) show ?thesis by (simp add: do_quit_inv)
  next
    case helo
    with assms(2) show ?thesis by (simp add: do_helo_inv)
  next
    case mail
    then obtain r where "do_mail ms = Inr (r, ms')" by (auto dest: unless_exit_result)
    with assms(2) show ?thesis by (rule do_mail_inv [rotated])
  next
    case rcpt
    then obtain r where "do_rcpt is_valid_user ms = Inr (r, ms')"
      by (auto dest: unless_exit_result)
    with assms(2) show ?thesis by (rule do_rcpt_inv [rotated])
  next
    case data
    then obtain r where "do_data fuel ms = Inr (r, ms')" by (auto dest: unless_exit_result)
    with assms(2) show ?thesis by (rule do_data_inv [rotated])
  next
    case rset
    with assms(2) show ?thesis by (simp add: do_rset_inv)
  next
    case noop
    with assms(2) show ?thesis by (simp add: do_noop_inv)
  next
    case vrfy
    with assms(2) show ?thesis by (simp add: do_vrfy_inv)
  next
    case other
    with assms(2) show ?thesis by simp
  qed
qed

lemma read_command_inv:
  assumes "read_command is_valid_user fuel ms = Inr (c, ms')" and "session_inv ms0 ms"
  shows "session_inv ms0 ms'"
proof -
  obtain n ms1 where rd: "nb_read_line ms = (n, ms1)"
    by (cases "nb_read_line ms")
  then have fr: "state ms1 = state ms" "reverse_path_buffer ms1 = reverse_path_buffer ms"
    "forward_path_buffer ms1 = forward_path_buffer ms" "mail_data_buffer ms1 = mail_data_buffer ms"
    by (auto simp: nb_read_line_def split: list.splits read_event.splits)
  then have inv1: "session_inv ms0 ms1"
    using assms(2) session_inv_frame [of ms1 ms ms0] by simp
  from assms(1) rd have body: "loop_body is_valid_user fuel ms1 (word_of_int n) = Inr (c, ms')"
    by (simp add: read_command_def)
  then consider
      (refused) msg where "ms' = replied ms1 msg"
    | (dispatched) buf where
        "dispatch is_valid_user fuel (ms1\<lparr>recvbuf := buf, words := split (cstr buf)\<rparr>)
         = Inr (c, ms')"
    by (auto simp: loop_body_def send_formatted_def replied_def split: sum.splits if_splits)
  then show ?thesis
  proof cases
    case refused
    with inv1 show ?thesis by simp
  next
    case dispatched
    have "session_inv ms0 (ms1\<lparr>recvbuf := buf, words := split (cstr buf)\<rparr>)"
      using inv1 session_inv_frame [of "ms1\<lparr>recvbuf := buf, words := split (cstr buf)\<rparr>" ms1 ms0]
      by simp
    with dispatched show ?thesis by (rule dispatch_inv)
  qed
qed

lemma reachable_inv: "reachable is_valid_user ms0 ms \<Longrightarrow> session_inv ms0 ms"
proof (induction rule: reachable.induct)
  case start
  show ?case by (simp add: greeted_def send_formatted_def session_inv_def)
next
  case (turn ms fuel continue ms')
  then show ?case by (auto intro: read_command_inv)
qed

lemma handle_client_loop_reachable:
  "handle_client_loop is_valid_user fuel ms = Inr ms' \<Longrightarrow> reachable is_valid_user ms0 ms \<Longrightarrow>
   reachable is_valid_user ms0 ms'"
proof (induction fuel arbitrary: ms)
  case 0
  then show ?case by simp
next
  case (Suc fuel)
  from Suc.prems(1) obtain c ms1 where
    rc: "read_command is_valid_user fuel ms = Inr (c, ms1)"
    by (auto split: sum.splits)
  with Suc.prems(2) have r1: "reachable is_valid_user ms0 ms1" by (rule reachable.turn)
  show ?case
  proof (cases c)
    case True
    with Suc.prems(1) rc have "handle_client_loop is_valid_user fuel ms1 = Inr ms'" by simp
    then show ?thesis using r1 by (rule Suc.IH)
  next
    case False
    with Suc.prems(1) rc have "ms' = ms1" by simp
    with r1 show ?thesis by simp
  qed
qed

lemma handle_client_reachable:
  assumes "handle_client is_valid_user fuel ms0 = Inr ms"
  shows "reachable is_valid_user ms0 ms"
proof (cases "fd_up ms0")
  case True
  with assms have "handle_client_loop is_valid_user fuel (greeted ms0) = Inr ms"
    by (simp add: handle_client_def greeted_def send_formatted_def Let_def)
  then show ?thesis using reachable.start by (rule handle_client_loop_reachable)
next
  case False
  with assms have "ms = greeted ms0"
    by (simp add: handle_client_def greeted_def send_formatted_def Let_def)
  then show ?thesis by (simp add: reachable.start)
qed


lemma do_data_clears:
  assumes "do_data fuel ms = Inr (0, ms')"
  shows "all_clear ms' \<and> state ms' = Data_input_done"
proof (cases "nwords ms = 1 \<and> state ms = Recipient_provided")
  case True
  with assms obtain ms2 where "do_data_loop fuel ms2 = Inr (0, ms')"
    by (auto simp: do_data_def Let_def)
  then show ?thesis
    using do_data_loop_clears do_data_loop_returns_0 by blast
next
  case False
  then have "\<exists>msg. do_data fuel ms = Inr (1, replied ms msg)"
    using do_data_syntax [of ms fuel] do_data_sequence [of ms fuel] by metis
  with assms show ?thesis by auto
qed

lemma do_rset_clears:
  "nwords ms = 1 \<Longrightarrow> state ms \<noteq> Init \<Longrightarrow>
   all_clear (snd (do_rset ms)) \<and> state (snd (do_rset ms)) = Executed_Helo"
  by (simp add: do_rset_def send_formatted_def clear_buffers_eq all_clear_def)

lemma do_mail_resets:
  assumes "do_mail ms = Inr (0, ms')"
  shows "forward_path_buffer ms' = None \<and> mail_data_buffer ms' = None
    \<and> users (reverse_path_buffer ms') = [spec_enclosed_path ''FROM:<'' (words ms ! 1)]"
proof (cases "mail_syntax_ok ms \<and> (state ms = Executed_Helo \<or> state ms = Data_input_done)")
  case True
  with assms show ?thesis
    by (auto simp: do_mail_success spec_enclosed_path_mail users_def)
next
  case False
  then have "\<exists>msg. do_mail ms = Inr (1, replied ms msg)"
    using do_mail_syntax [of ms] do_mail_sequence [of ms] by metis
  with assms show ?thesis by auto
qed

lemma example_run:
  "handle_client (\<lambda>u. u = ''bob'') (Suc (Suc (Suc (Suc 0)))) (session0\<lparr>nb := example_script\<rparr>)
   = Inr example_end"
  by (simp add: strip_trailing.simps libc_defs size_t_simps io_defs reply_defs loop_defs
      do_helo_def do_mail_def do_rcpt_def do_quit_def clear_buffers_def example_script_def
      example_end_def session0_def Let_def)

lemma data_run:
  "do_data (Suc (Suc 0)) (rcpt_session\<lparr>nb := [Line (''Hi'' @ CRLF), Line (''.'' @ CRLF)]\<rparr>)
   = Inr (0, data_end)"
  by (simp add: strip_trailing.simps libc_defs size_t_simps io_defs reply_defs data_defs
      example_defs data_end_def Let_def)

lemma mail_run:
  "do_mail (rcpt_session\<lparr>state := Data_input_done, words := [''MAIL'', ''From:<carol@example.org>'']\<rparr>)
   = Inr (0, mail_end)"
  by (simp add: do_mail_def nwords_def libc_defs io_defs reply_defs clear_buffers_def Let_def
      example_defs mail_end_def)

text \<open>
  C7. In every state that a session reaches, the recipient list is non-empty only if the
  reverse path is present. handle_client leaves the three buffer pointers of \<open>mstate\<close>
  unset and no handler reads or writes them before HELO is accepted, so in state Init they
  are what the memory held: the statement holds in every reachable state past Init, and in
  Init as well when that memory does not hold a populated recipient list. The three buffers
  are cleared together: clear_buffers empties all three; it runs at the end of DATA, at
  RSET outside Init, and at a successful MAIL, which then stores the new reverse path and
  leaves recipients and message body empty.
\<close>

theorem recipients_need_reverse_path:
  assumes "reachable is_valid_user ms0 ms"
  shows "(state ms \<noteq> Init \<or> users (forward_path_buffer ms0) = [] \<longrightarrow>
            (users (forward_path_buffer ms) \<noteq> [] \<longrightarrow> users (reverse_path_buffer ms) \<noteq> []))
    \<and> all_clear (clear_buffers s)
    \<and> (do_data fuel s = Inr (0, s') \<longrightarrow> all_clear s' \<and> state s' = Data_input_done)
    \<and> (nwords s = 1 \<and> state s \<noteq> Init \<longrightarrow>
          all_clear (snd (do_rset s)) \<and> state (snd (do_rset s)) = Executed_Helo)
    \<and> (do_mail s = Inr (0, s') \<longrightarrow>
          forward_path_buffer s' = None \<and> mail_data_buffer s' = None
          \<and> users (reverse_path_buffer s') = [spec_enclosed_path ''FROM:<'' (words s ! 1)])"
proof -
  from assms have "session_inv ms0 ms" by (rule reachable_inv)
  then have "state ms \<noteq> Init \<or> users (forward_path_buffer ms0) = [] \<longrightarrow>
      (users (forward_path_buffer ms) \<noteq> [] \<longrightarrow> users (reverse_path_buffer ms) \<noteq> [])"
    unfolding session_inv_def by (cases "state ms") auto
  moreover have "all_clear (clear_buffers s)"
    by (simp add: clear_buffers_eq all_clear_def)
  moreover have "do_data fuel s = Inr (0, s') \<longrightarrow> all_clear s' \<and> state s' = Data_input_done"
    using do_data_clears by blast
  moreover have "nwords s = 1 \<and> state s \<noteq> Init \<longrightarrow>
      all_clear (snd (do_rset s)) \<and> state (snd (do_rset s)) = Executed_Helo"
    using do_rset_clears by blast
  moreover have "do_mail s = Inr (0, s') \<longrightarrow>
      forward_path_buffer s' = None \<and> mail_data_buffer s' = None
      \<and> users (reverse_path_buffer s') = [spec_enclosed_path ''FROM:<'' (words s ! 1)]"
    using do_mail_resets by blast
  ultimately show ?thesis by (intro conjI)
qed

theorem recipients_need_reverse_path_witness:
  "reachable (\<lambda>u. u = ''bob'') (session0\<lparr>nb := example_script\<rparr>) example_end
   \<and> state example_end \<noteq> Init
   \<and> users (forward_path_buffer example_end) \<noteq> []
   \<and> users (reverse_path_buffer example_end) \<noteq> []
   \<and> do_data (Suc (Suc 0)) (rcpt_session\<lparr>nb := [Line (''Hi'' @ CRLF), Line (''.'' @ CRLF)]\<rparr>)
       = Inr (0, data_end)
   \<and> all_clear data_end
   \<and> all_clear (snd (do_rset (rcpt_session\<lparr>words := [''RSET'']\<rparr>)))
   \<and> do_mail (rcpt_session\<lparr>state := Data_input_done, words := [''MAIL'', ''From:<carol@example.org>'']\<rparr>)
       = Inr (0, mail_end)
   \<and> forward_path_buffer mail_end = None"
proof -
  have r: "reachable (\<lambda>u. u = ''bob'') (session0\<lparr>nb := example_script\<rparr>) example_end"
    using example_run by (rule handle_client_reachable)
  have st: "state example_end \<noteq> Init" by (simp add: example_end_def)
  have fw: "users (forward_path_buffer example_end) \<noteq> []"
    by (simp add: example_end_def users_def)
  have "users (reverse_path_buffer example_end) \<noteq> []"
    using recipients_need_reverse_path [OF r, THEN conjunct1] st fw by simp
  moreover have "all_clear data_end"
    using recipients_need_reverse_path
      [OF r, THEN conjunct2, THEN conjunct2, THEN conjunct1, THEN mp, OF data_run]
    by simp
  moreover have "all_clear (snd (do_rset (rcpt_session\<lparr>words := [''RSET'']\<rparr>)))"
    using recipients_need_reverse_path
      [OF r, where s = "rcpt_session\<lparr>words := [''RSET'']\<rparr>",
       THEN conjunct2, THEN conjunct2, THEN conjunct2, THEN conjunct1]
    by (simp add: nwords_def rcpt_session_def)
  moreover have "forward_path_buffer mail_end = None"
    using recipients_need_reverse_path
      [OF r, THEN conjunct2, THEN conjunct2, THEN conjunct2, THEN conjunct2, THEN mp, OF mail_run]
    by simp
  ultimately show ?thesis using r st fw data_run mail_run by (intro conjI)
qed

end
